theory Spec2Isabelle
  imports Main "HOL-Library.AList"
begin

section \<open>JavaScript values\<close>

text \<open>
  Values that are stored in, or read back from, the object stores are structured clones:
  they have value semantics and are modelled as trees. \<open>TBlob ty sz\<close> is a genuine
  \<^verbatim>\<open>Blob\<close> instance with its \<^verbatim>\<open>type\<close> and \<^verbatim>\<open>size\<close>; \<open>TFun\<close> is a function value
  (only its being a function is ever inspected). Numbers are the integers.
\<close>

datatype tree =
    TUndef
  | TNull
  | TBool bool
  | TNum int
  | TStr string
  | TArr "tree list"
  | TObj "(string \<times> tree) list"
  | TBlob string int
  | TFun

text \<open>JavaScript's \<^verbatim>\<open>ToBoolean\<close>, as used by \<^verbatim>\<open>if (x)\<close>, \<^verbatim>\<open>!x\<close>, \<^verbatim>\<open>x || y\<close> and \<^verbatim>\<open>x && y\<close>.\<close>

fun truthy :: "tree \<Rightarrow> bool" where
  "truthy TUndef = False"
| "truthy TNull = False"
| "truthy (TBool b) = b"
| "truthy (TNum n) = (n \<noteq> 0)"
| "truthy (TStr s) = (s \<noteq> [])"
| "truthy _ = True"

text \<open>
  Reading a named property \<^verbatim>\<open>v.k\<close> of a value that is neither \<^verbatim>\<open>undefined\<close> nor
  \<^verbatim>\<open>null\<close> (those two raise a TypeError, which the callers write out). A \<^verbatim>\<open>Blob\<close> has
  \<^verbatim>\<open>size\<close>, \<^verbatim>\<open>type\<close> and the methods \<^verbatim>\<open>stream\<close> and \<^verbatim>\<open>arrayBuffer\<close>; the property
  names the program reads are never defined on arrays, strings, numbers or booleans.
\<close>

fun getProp :: "tree \<Rightarrow> string \<Rightarrow> tree" where
  "getProp (TObj fs) k = (case map_of fs k of Some v \<Rightarrow> v | None \<Rightarrow> TUndef)"
| "getProp (TBlob ty sz) k =
     (if k = ''size'' then TNum sz
      else if k = ''type'' then TStr ty
      else if k = ''stream'' \<or> k = ''arrayBuffer'' then TFun
      else TUndef)"
| "getProp _ k = TUndef"

section \<open>The transactional engine (IndexedDB) as the program uses it\<close>

datatype error =
    NotFoundError        \<comment> \<open>the engine: no such object store or index\<close>
  | DataError            \<comment> \<open>the engine: the key is not a valid key\<close>
  | ConstraintError      \<comment> \<open>the engine: \<^verbatim>\<open>add\<close> on a key that is present\<close>
  | AbortError           \<comment> \<open>the engine: the transaction was aborted\<close>
  | DataCloneError       \<comment> \<open>the engine: the value cannot be cloned\<close>
  | TypeError            \<comment> \<open>the language: property of null, not a function, cyclic JSON\<close>
  | SyntaxError          \<comment> \<open>the language: \<^verbatim>\<open>JSON.parse\<close> of what is not JSON\<close>
  | ArrayProperty        \<comment> \<open>the model: a named property written to an array\<close>
  | FunctionCall         \<comment> \<open>the model: a conversion that would call a function value\<close>
  | FileNotFound tree    \<comment> \<open>\<^verbatim>\<open>getFile\<close>: no record with this id\<close>
  | BlobMissing tree     \<comment> \<open>\<^verbatim>\<open>createFileURL\<close>: the record has no blob\<close>
  | BlobUnusable         \<comment> \<open>\<^verbatim>\<open>createFileURL\<close>: the blob could not be reconstructed\<close>
  | ImportFormatInvalid  \<comment> \<open>\<^verbatim>\<open>importDatabase\<close>: the document is not an object\<close>
  | VersionMismatch      \<comment> \<open>\<^verbatim>\<open>importDatabase\<close>: the snapshot's version is not the current one\<close>
  | NullRejection        \<comment> \<open>a promise rejected with \<^verbatim>\<open>null\<close>\<close>
  | ImportFailed error   \<comment> \<open>\<^verbatim>\<open>importDatabase\<close> wraps whatever it caught\<close>
  | ExportFailed error   \<comment> \<open>\<^verbatim>\<open>exportDatabase\<close> wraps whatever it caught\<close>

text \<open>
  A valid key of the engine: a number, a string, or an array of valid keys (dates and
  binary keys do not occur in \<open>tree\<close>).
\<close>

fun valid_key :: "tree \<Rightarrow> bool" where
  "valid_key (TNum n) = True"
| "valid_key (TStr s) = True"
| "valid_key (TArr xs) = list_all valid_key xs"
| "valid_key _ = False"

text \<open>
  A template literal converts each value in it to a string, and the conversion can
  raise. Primitives, functions and \<^verbatim>\<open>Blob\<close>s have a string; an array has the strings of
  its elements, joined; a plain object has the string of \<^verbatim>\<open>Object.prototype.toString\<close>
  unless it has a property \<^verbatim>\<open>toString\<close> of its own. If that property is not a function,
  \<^verbatim>\<open>valueOf\<close> is tried, and the one every object inherits returns no primitive: the
  conversion raises a TypeError. Where the conversion would call a function value the
  model stops, since it does not run functions. The texts that the operations below
  build are descriptions and log lines, which nothing reads: \<open>interpolate\<close> keeps only
  whether the conversion raises.
\<close>

fun interpolate :: "tree \<Rightarrow> error + unit" and interpolateAll :: "tree list \<Rightarrow> error + unit" where
  "interpolate (TArr xs) = interpolateAll xs"
| "interpolate (TObj fs) =
     (case map_of fs ''toString'' of
        None \<Rightarrow> Inr ()
      | Some f \<Rightarrow>
          if f = TFun then Inl FunctionCall
          else (case map_of fs ''valueOf'' of
                  None \<Rightarrow> Inl TypeError
                | Some g \<Rightarrow> if g = TFun then Inl FunctionCall else Inl TypeError))"
| "interpolate TUndef = Inr ()"
| "interpolate TNull = Inr ()"
| "interpolate (TBool b) = Inr ()"
| "interpolate (TNum n) = Inr ()"
| "interpolate (TStr s) = Inr ()"
| "interpolate (TBlob ty sz) = Inr ()"
| "interpolate TFun = Inr ()"
| "interpolateAll [] = Inr ()"
| "interpolateAll (x # xs) =
     (case interpolate x of Inl e \<Rightarrow> Inl e | Inr u \<Rightarrow> interpolateAll xs)"

text \<open>
  One object store: its declared key path and auto-increment flag (the table
  \<^verbatim>\<open>this.stores\<close>), the names of its indexes (each index of the program has its own name
  as key path), the current number of its key generator, and its rows, each the key
  with the stored record. Every store of the program has in-line keys, so every record
  is a plain object (its fields, in insertion order). The engine enumerates rows in key
  order; the program promises no order, and the model keeps rows in the order of their
  first insertion.
\<close>

type_synonym obj = "(string \<times> tree) list"

record store =
  keyPath :: string
  autoIncrement :: bool
  indexes :: "string list"
  keyGen :: int
  rows :: "(tree \<times> obj) list"

type_synonym database = "(string \<times> store) list"

text \<open>
  \<^verbatim>\<open>_dbOperation(storeName, mode, operation)\<close> on an open connection:
  \<^verbatim>\<open>this.db.transaction([storeName], mode)\<close> raises NotFoundError when the store does not
  exist; an exception of \<^verbatim>\<open>operation(store)\<close> is caught and rejects the call. The
  transaction is atomic: a rejected call leaves the database as it was.
\<close>

definition dbOperation ::
  "database \<Rightarrow> string \<Rightarrow> (store \<Rightarrow> error + ('a \<times> store)) \<Rightarrow> error + ('a \<times> database)" where
  "dbOperation d storeName operation =
     (case map_of d storeName of
        None \<Rightarrow> Inl NotFoundError
      | Some s \<Rightarrow>
          (case operation s of
             Inl e \<Rightarrow> Inl e
           | Inr (r, s') \<Rightarrow> Inr (r, AList.update storeName s' d)))"

text \<open>
  \<^verbatim>\<open>get(storeName, key)\<close>: the description of the operation is built first, with the key
  in a template literal; then \<^verbatim>\<open>store.get(key)\<close> raises DataError on an invalid key and
  gives \<^verbatim>\<open>undefined\<close> when the key is absent.
\<close>

definition get :: "database \<Rightarrow> string \<Rightarrow> tree \<Rightarrow> error + tree" where
  "get d storeName key =
     (case interpolate key of
        Inl e \<Rightarrow> Inl e
      | Inr u \<Rightarrow>
          (case dbOperation d storeName
                  (\<lambda>s. if valid_key key
                       then Inr (case map_of (rows s) key of Some fs \<Rightarrow> TObj fs | None \<Rightarrow> TUndef, s)
                       else Inl DataError) of
             Inl e \<Rightarrow> Inl e
           | Inr (v, _) \<Rightarrow> Inr v))"

text \<open>
  \<^verbatim>\<open>delete(storeName, key)\<close>: the description is built first, with the key in a template
  literal; then \<^verbatim>\<open>store.delete(key)\<close> raises DataError on an invalid key, and on a valid
  key it removes the row if there is one and succeeds either way.
\<close>

definition delete :: "database \<Rightarrow> string \<Rightarrow> tree \<Rightarrow> error + database" where
  "delete d storeName key =
     (case interpolate key of
        Inl e \<Rightarrow> Inl e
      | Inr u \<Rightarrow>
          (case dbOperation d storeName
                  (\<lambda>s. if valid_key key
                       then Inr ((), s\<lparr>rows := AList.delete key (rows s)\<rparr>)
                       else Inl DataError) of
             Inl e \<Rightarrow> Inl e
           | Inr (_, d') \<Rightarrow> Inr d'))"

section \<open>The manager: connection, handle cache, revoked handles\<close>

text \<open>
  The state of an initialised \<^verbatim>\<open>UnifiedDBManager\<close>: the open connection \<^verbatim>\<open>this.db\<close>, the
  cache \<^verbatim>\<open>this.urlCache\<close> from file ids to handles, and the handles given to
  \<^verbatim>\<open>URL.revokeObjectURL\<close> so far (an effect outside the manager, kept as a log). The
  cache is a \<^verbatim>\<open>Map\<close>: it finds a string or a number by its value, and an array or an
  object only if it is the very object that was entered. Ids are trees here, so an id
  that is an array or an object stands for one and the same object wherever it occurs.
\<close>

record manager =
  db :: database
  urlCache :: "(tree \<times> string) list"
  revoked :: "string list"

definition revokeFileURL :: "manager \<Rightarrow> tree \<Rightarrow> manager" where
  "revokeFileURL m fileId =
     (case map_of (urlCache m) fileId of
        Some url \<Rightarrow> m\<lparr>urlCache := AList.delete fileId (urlCache m), revoked := revoked m @ [url]\<rparr>
      | None \<Rightarrow> m)"

text \<open>
  \<^verbatim>\<open>deleteFile(fileId)\<close>: the keyed delete, then the handle of the file is revoked. The
  log line at its end formats the id that \<^verbatim>\<open>delete\<close> has formatted before.
\<close>

definition deleteFile :: "manager \<Rightarrow> tree \<Rightarrow> error + manager" where
  "deleteFile m fileId =
     (case delete (db m) ''fileStorage'' fileId of
        Inl e \<Rightarrow> Inl e
      | Inr d' \<Rightarrow> Inr (revokeFileURL (m\<lparr>db := d'\<rparr>) fileId))"

section \<open>Writing records\<close>

text \<open>A value can be cloned into a store unless a function occurs in it.\<close>

fun clonable :: "tree \<Rightarrow> bool" where
  "clonable TFun = False"
| "clonable (TArr xs) = list_all clonable xs"
| "clonable (TObj fs) = list_all (\<lambda>kv. clonable (snd kv)) fs"
| "clonable _ = True"

text \<open>
  What \<^verbatim>\<open>store.put(value)\<close> and \<^verbatim>\<open>store.add(value)\<close> check when they are called, before
  any request is queued: the value is cloned (DataCloneError), the key is read at the
  key path (DataError when it is there and not a valid key, or missing with no key
  generator). The result is the record with its key, \<open>None\<close> when the generator is to
  supply it.
\<close>

definition extractKey :: "store \<Rightarrow> tree \<Rightarrow> error + (tree option \<times> obj)" where
  "extractKey s v =
     (if \<not> clonable v then Inl DataCloneError
      else case v of
        TObj fs \<Rightarrow>
          (case map_of fs (keyPath s) of
             Some k \<Rightarrow>
               if k = TUndef then (if autoIncrement s then Inr (None, fs) else Inl DataError)
               else if valid_key k then Inr (Some k, fs)
               else Inl DataError
           | None \<Rightarrow> if autoIncrement s then Inr (None, fs) else Inl DataError)
      | _ \<Rightarrow> Inl DataError)"

text \<open>
  The engine storing a checked record: a missing key is generated and written into the
  record at the key path; an explicit number at or above the generator moves it on.
\<close>

definition storeRecord :: "store \<Rightarrow> tree option \<times> obj \<Rightarrow> store" where
  "storeRecord s r =
     (case r of
        (None, fs) \<Rightarrow>
          s\<lparr>keyGen := keyGen s + 1,
            rows := AList.update (TNum (keyGen s))
                      (AList.update (keyPath s) (TNum (keyGen s)) fs) (rows s)\<rparr>
      | (Some k, fs) \<Rightarrow>
          s\<lparr>keyGen := (case k of
                          TNum n \<Rightarrow> if autoIncrement s \<and> keyGen s \<le> n then n + 1 else keyGen s
                        | _ \<Rightarrow> keyGen s),
            rows := AList.update k fs (rows s)\<rparr>)"

text \<open>\<^verbatim>\<open>put(storeName, data)\<close>: an upsert; it resolves with the key of the record.\<close>

definition put :: "database \<Rightarrow> string \<Rightarrow> tree \<Rightarrow> error + (tree \<times> database)" where
  "put d storeName data =
     dbOperation d storeName
       (\<lambda>s. case extractKey s data of
              Inl e \<Rightarrow> Inl e
            | Inr r \<Rightarrow> Inr (case fst r of Some k \<Rightarrow> k | None \<Rightarrow> TNum (keyGen s), storeRecord s r))"

section \<open>Files\<close>

text \<open>
  \<^verbatim>\<open>getFile(fileId)\<close>: a file that is not there is an error. Its message formats the id
  that \<^verbatim>\<open>get\<close> has formatted before.
\<close>

definition getFile :: "database \<Rightarrow> tree \<Rightarrow> error + tree" where
  "getFile d fileId =
     (case get d ''fileStorage'' fileId of
        Inl e \<Rightarrow> Inl e
      | Inr result \<Rightarrow> if \<not> truthy result then Inl (FileNotFound fileId) else Inr result)"

text \<open>\<^verbatim>\<open>blob instanceof Blob\<close>.\<close>

fun instanceofBlob :: "tree \<Rightarrow> bool" where
  "instanceofBlob (TBlob ty sz) = True"
| "instanceofBlob _ = False"

text \<open>
  The inner \<^verbatim>\<open>try\<close> of \<^verbatim>\<open>createFileURL\<close> for a value that is not a \<^verbatim>\<open>Blob\<close> instance: it
  passes when \<^verbatim>\<open>size\<close> and \<^verbatim>\<open>type\<close> are defined and \<^verbatim>\<open>stream\<close> or \<^verbatim>\<open>arrayBuffer\<close> is
  a function; both of its \<^verbatim>\<open>throw\<close>s are caught and raised again as one error.
\<close>

definition reconstructBlob :: "tree \<Rightarrow> error + unit" where
  "reconstructBlob blob =
     (if getProp blob ''size'' \<noteq> TUndef \<and> getProp blob ''type'' \<noteq> TUndef
      then (if getProp blob ''stream'' = TFun \<or> getProp blob ''arrayBuffer'' = TFun
            then Inr ()
            else Inl BlobUnusable)
      else Inl BlobUnusable)"

text \<open>
  The \<^verbatim>\<open>try\<close> block of \<^verbatim>\<open>createFileURL\<close>. \<^verbatim>\<open>URL.createObjectURL\<close> belongs to the host: it
  is the parameter \<open>createObjectURL\<close>, which may raise.
\<close>

definition createFileURL_try ::
  "(tree \<Rightarrow> error + string) \<Rightarrow> manager \<Rightarrow> tree \<Rightarrow> error + (string \<times> manager)" where
  "createFileURL_try createObjectURL m fileId =
     (case map_of (urlCache m) fileId of
        Some url \<Rightarrow> Inr (url, m)
      | None \<Rightarrow>
          (case getFile (db m) fileId of
             Inl e \<Rightarrow> Inl e
           | Inr fileRecord \<Rightarrow>
               let blob = getProp fileRecord ''blob'' in
               if \<not> truthy blob then Inl (BlobMissing fileId)
               else
                 (case (if \<not> instanceofBlob blob then reconstructBlob blob else Inr ()) of
                    Inl e \<Rightarrow> Inl e
                  | Inr _ \<Rightarrow>
                      (case createObjectURL blob of
                         Inl e \<Rightarrow> Inl e
                       | Inr url \<Rightarrow>
                           Inr (url, m\<lparr>urlCache := AList.update fileId url (urlCache m)\<rparr>)))))"

text \<open>
  \<^verbatim>\<open>createFileURL(fileId)\<close>: the \<^verbatim>\<open>catch\<close> logs a line with the id in a template literal
  and returns the empty string. If the id has no string, the log line raises and the
  call is rejected with that exception.
\<close>

definition createFileURL ::
  "(tree \<Rightarrow> error + string) \<Rightarrow> manager \<Rightarrow> tree \<Rightarrow> error + (string \<times> manager)" where
  "createFileURL createObjectURL m fileId =
     (case createFileURL_try createObjectURL m fileId of
        Inl e \<Rightarrow>
          (case interpolate fileId of
             Inl e' \<Rightarrow> Inl e'
           | Inr u \<Rightarrow> Inr ([], m))
      | Inr r \<Rightarrow> Inr r)"

section \<open>Batch clean-up\<close>

text \<open>
  \<^verbatim>\<open>cleanupFileReferences(fileId)\<close>: the description is built first, with the id in a
  template literal; \<^verbatim>\<open>store.index('fileId')\<close> raises NotFoundError when the index does
  not exist, \<^verbatim>\<open>IDBKeyRange.only(fileId)\<close> raises DataError on an invalid key; the cursor
  then deletes every record whose \<^verbatim>\<open>fileId\<close> is the given one and the call resolves with
  their number.
\<close>

definition cleanupFileReferences :: "database \<Rightarrow> tree \<Rightarrow> error + (nat \<times> database)" where
  "cleanupFileReferences d fileId =
     (case interpolate fileId of
        Inl e \<Rightarrow> Inl e
      | Inr u \<Rightarrow>
          dbOperation d ''fileReferences''
            (\<lambda>s. if ''fileId'' \<notin> set (indexes s) then Inl NotFoundError
                 else if \<not> valid_key fileId then Inl DataError
                 else Inr (length (filter (\<lambda>r. getProp (TObj (snd r)) ''fileId'' = fileId) (rows s)),
                           s\<lparr>rows := filter (\<lambda>r. getProp (TObj (snd r)) ''fileId'' \<noteq> fileId)
                                           (rows s)\<rparr>)))"

record cleanup_result =
  deletedCount :: nat
  totalRequested :: "nat option"   \<comment> \<open>\<open>None\<close>: the result has no such property\<close>
  errors :: "(tree \<times> error) list"

text \<open>
  The inner \<^verbatim>\<open>try\<close> block of \<^verbatim>\<open>cleanupSelectedImages\<close> for one id: three calls, each of
  which commits on its own, so what the id changed before a failure stays changed. The
  result is the state and the exception, if any. (The log line that ends the block
  formats the id that the three calls have formatted before.)
\<close>

definition cleanupTry :: "manager \<Rightarrow> tree \<Rightarrow> manager \<times> error option" where
  "cleanupTry m fileId =
     (case deleteFile m fileId of
        Inl e \<Rightarrow> (m, Some e)
      | Inr m1 \<Rightarrow>
          (case delete (db m1) ''imageUsageMetadata'' fileId of
             Inl e \<Rightarrow> (m1, Some e)
           | Inr d2 \<Rightarrow>
               (case cleanupFileReferences d2 fileId of
                  Inl e \<Rightarrow> (m1\<lparr>db := d2\<rparr>, Some e)
                | Inr r \<Rightarrow> (m1\<lparr>db := snd r\<rparr>, None))))"

text \<open>
  The \<^verbatim>\<open>for\<close> loop of \<^verbatim>\<open>cleanupSelectedImages\<close>, with \<^verbatim>\<open>deletedCount\<close> and \<^verbatim>\<open>errors\<close> as
  accumulators. The inner \<^verbatim>\<open>catch\<close> first logs a warning with the id in a template
  literal, then records the failure and lets the loop go on. If the id has no string,
  the warning raises: that exception leaves the loop, and the outer \<^verbatim>\<open>catch\<close> raises it
  again.
\<close>

fun cleanupLoop ::
  "manager \<Rightarrow> tree list \<Rightarrow> nat \<Rightarrow> (tree \<times> error) list
     \<Rightarrow> manager \<times> (error + nat \<times> (tree \<times> error) list)" where
  "cleanupLoop m [] n es = (m, Inr (n, es))"
| "cleanupLoop m (fileId # rest) n es =
     (case cleanupTry m fileId of
        (m', None) \<Rightarrow> cleanupLoop m' rest (n + 1) es
      | (m', Some e) \<Rightarrow>
          (case interpolate fileId of
             Inl e' \<Rightarrow> (m', Inl e')
           | Inr u \<Rightarrow> cleanupLoop m' rest n (es @ [(fileId, e)])))"

text \<open>
  \<^verbatim>\<open>cleanupSelectedImages(fileIds)\<close>: the state after the call, and the result or the
  exception the call is rejected with.
\<close>

definition cleanupSelectedImages :: "manager \<Rightarrow> tree \<Rightarrow> manager \<times> (error + cleanup_result)" where
  "cleanupSelectedImages m fileIds =
     (case fileIds of
        TArr ids \<Rightarrow>
          if ids = [] then (m, Inr \<lparr>deletedCount = 0, totalRequested = None, errors = []\<rparr>)
          else
            (case cleanupLoop m ids 0 [] of
               (m', Inl e) \<Rightarrow> (m', Inl e)
             | (m', Inr (n, es)) \<Rightarrow>
                 (m', Inr \<lparr>deletedCount = n, totalRequested = Some (length ids), errors = es\<rparr>))
      | _ \<Rightarrow> (m, Inr \<lparr>deletedCount = 0, totalRequested = None, errors = []\<rparr>))"

section \<open>The schema and the structural upgrade\<close>

text \<open>The table \<^verbatim>\<open>this.stores\<close>: name, key path, auto-increment flag, in declaration order.\<close>

definition stores :: "(string \<times> string \<times> bool) list" where
  "stores =
     [(''songs'', ''id'', True),
      (''contacts'', ''id'', False),
      (''apiSettings'', ''id'', False),
      (''emojis'', ''id'', False),
      (''emojiImages'', ''tag'', False),
      (''backgrounds'', ''id'', False),
      (''userProfile'', ''id'', False),
      (''moments'', ''id'', False),
      (''weiboPosts'', ''id'', True),
      (''hashtagCache'', ''id'', False),
      (''characterMemories'', ''contactId'', False),
      (''conversationCounters'', ''id'', False),
      (''globalMemory'', ''id'', False),
      (''memoryProcessedIndex'', ''contactId'', False),
      (''fileStorage'', ''fileId'', False),
      (''fileReferences'', ''referenceId'', False),
      (''themeConfig'', ''type'', False),
      (''imageUsageMetadata'', ''fileId'', False)]"

text \<open>The indexes \<^verbatim>\<open>_createStores\<close> adds to a store it creates.\<close>

definition storeIndexes :: "string \<Rightarrow> string list" where
  "storeIndexes storeName =
     (if storeName = ''fileReferences'' then [''category'', ''fileId'']
      else if storeName = ''imageUsageMetadata'' then [''usageType'', ''category'', ''createdAt'']
      else [])"

text \<open>
  \<^verbatim>\<open>_createStores(db, oldVersion)\<close> for the target version 14 (so \<^verbatim>\<open>this.version >= 12\<close>
  holds): the deprecated store is dropped if it is there, and every declared store that
  is not there is created, empty, with its indexes and a key generator at 1.
\<close>

definition createStores :: "database \<Rightarrow> database" where
  "createStores d =
     foldl (\<lambda>d' (storeName, kp, ai).
              if map_of d' storeName \<noteq> None then d'
              else d' @ [(storeName, \<lparr>keyPath = kp, autoIncrement = ai,
                                     indexes = storeIndexes storeName, keyGen = 1, rows = []\<rparr>)])
       (AList.delete ''bubbleDesignerStickers'' d) stores"

text \<open>A manager on a database that was just created, with nothing cached.\<close>

definition freshManager :: manager where
  "freshManager = \<lparr>db = createStores [], urlCache = [], revoked = []\<rparr>"

section \<open>Export\<close>

text \<open>
  The redaction of \<^verbatim>\<open>exportStore\<close> on one record: a shallow copy from which \<^verbatim>\<open>apiKey\<close>
  and \<^verbatim>\<open>password\<close> are deleted when they are truthy.
\<close>

definition sanitize :: "obj \<Rightarrow> obj" where
  "sanitize item =
     (let s1 = (if truthy (getProp (TObj item) ''apiKey'') then AList.delete ''apiKey'' item
                else item)
      in if truthy (getProp (TObj s1) ''password'') then AList.delete ''password'' s1 else s1)"

text \<open>
  \<^verbatim>\<open>exportStore(storeName)\<close>: \<^verbatim>\<open>getAll()\<close> in a read-only transaction, redacted for the
  store \<^verbatim>\<open>apiSettings\<close> alone.
\<close>

definition exportStore :: "database \<Rightarrow> string \<Rightarrow> error + tree list" where
  "exportStore d storeName =
     (case map_of d storeName of
        None \<Rightarrow> Inl NotFoundError
      | Some s \<Rightarrow>
          Inr (if storeName = ''apiSettings''
               then map (\<lambda>r. TObj (sanitize (snd r))) (rows s)
               else map (\<lambda>r. TObj (snd r)) (rows s)))"

text \<open>
  \<^verbatim>\<open>getDatabaseInfo()\<close> on the open connection, which has the name and the version the
  manager opened it with; \<open>now\<close> is the time stamp.
\<close>

definition getDatabaseInfo :: "database \<Rightarrow> string \<Rightarrow> tree" where
  "getDatabaseInfo d now =
     TObj [(''name'', TStr ''WhaleLLTDB''), (''version'', TNum 14),
           (''stores'', TArr (map (\<lambda>e. TStr (fst e)) d)), (''exportTime'', TStr now)]"

record export_options =
  exportStores :: "string list option"   \<comment> \<open>the option \<^verbatim>\<open>stores\<close>, \<open>None\<close> for \<^verbatim>\<open>null\<close>\<close>
  includeMetadata :: bool

text \<open>The \<^verbatim>\<open>for\<close> loop of \<^verbatim>\<open>exportDatabase\<close> over the names to export.\<close>

fun exportLoop :: "database \<Rightarrow> string list \<Rightarrow> obj \<Rightarrow> error + obj" where
  "exportLoop d [] exportData = Inr exportData"
| "exportLoop d (storeName # rest) exportData =
     (if map_of d storeName \<noteq> None
      then (case exportStore d storeName of
              Inl e \<Rightarrow> Inl e
            | Inr records \<Rightarrow> exportLoop d rest (AList.update storeName (TArr records) exportData))
      else exportLoop d rest exportData)"

definition exportDatabase :: "database \<Rightarrow> export_options \<Rightarrow> string \<Rightarrow> error + obj" where
  "exportDatabase d options now =
     (case exportLoop d
             (case exportStores options of Some names \<Rightarrow> names | None \<Rightarrow> map fst d)
             (if includeMetadata options then [(''_metadata'', getDatabaseInfo d now)] else []) of
        Inl e \<Rightarrow> Inl (ExportFailed e)
      | Inr exportData \<Rightarrow> Inr exportData)"

section \<open>The writer of the credentials store\<close>

text \<open>Decimal digits of a natural number, for template strings.\<close>

function show_nat :: "nat \<Rightarrow> string" where
  "show_nat n = (if n < 10 then [char_of (48 + n)] else show_nat (n div 10) @ [char_of (48 + n mod 10)])"
  by pat_completeness auto
termination
  by (relation "measure id") auto

declare show_nat.simps [simp del]

text \<open>\<^verbatim>\<open>a || b\<close>.\<close>

definition js_or :: "tree \<Rightarrow> tree \<Rightarrow> tree" where
  "js_or a b = (if truthy a then a else b)"

text \<open>\<^verbatim>\<open>typeof v === 'object'\<close>.\<close>

fun typeofObject :: "tree \<Rightarrow> bool" where
  "typeofObject TNull = True"
| "typeofObject (TArr xs) = True"
| "typeofObject (TObj fs) = True"
| "typeofObject (TBlob ty sz) = True"
| "typeofObject _ = False"

text \<open>The default names of \<^verbatim>\<open>saveConfig\<close>, as UTF-8 bytes.\<close>

definition mainKeyName :: string where
  "mainKeyName = [CHR 0xE4, CHR 0xB8, CHR 0xBB] @ ''Key''"

definition unnamedConfigName :: string where
  "unnamedConfigName =
     [CHR 0xE6, CHR 0x9C, CHR 0xAA, CHR 0xE5, CHR 0x91, CHR 0xBD, CHR 0xE5, CHR 0x90, CHR 0x8D,
      CHR 0xE9, CHR 0x85, CHR 0x8D, CHR 0xE7, CHR 0xBD, CHR 0xAE]"

text \<open>
  One entry of the compatibility structure that \<^verbatim>\<open>saveConfig\<close> builds from
  \<^verbatim>\<open>additionalKeys\<close>; \<^verbatim>\<open>keyItem.key\<close> of \<^verbatim>\<open>null\<close> or \<^verbatim>\<open>undefined\<close> is a TypeError.
\<close>

definition additionalKeyEntry :: "nat \<Rightarrow> tree \<Rightarrow> error + tree" where
  "additionalKeyEntry index keyItem =
     (if keyItem = TUndef \<or> keyItem = TNull then Inl TypeError
      else Inr (TObj
        [(''key'', case keyItem of TStr s \<Rightarrow> keyItem | _ \<Rightarrow> js_or (getProp keyItem ''key'') keyItem),
         (''name'', if typeofObject keyItem \<and> truthy (getProp keyItem ''name'')
                    then getProp keyItem ''name''
                    else TStr (''Key '' @ show_nat (index + 1))),
         (''enabled'', if typeofObject keyItem \<and> truthy (getProp keyItem ''enabled'')
                       then getProp keyItem ''enabled''
                       else TBool False),
         (''index'', TNum (int index + 1))]))"

fun additionalKeyEntries :: "nat \<Rightarrow> tree list \<Rightarrow> error + tree list" where
  "additionalKeyEntries index [] = Inr []"
| "additionalKeyEntries index (keyItem # rest) =
     (case additionalKeyEntry index keyItem of
        Inl e \<Rightarrow> Inl e
      | Inr entry \<Rightarrow>
          (case additionalKeyEntries (index + 1) rest of
             Inl e \<Rightarrow> Inl e
           | Inr entries \<Rightarrow> Inr (entry # entries)))"

text \<open>
  What the log line of \<^verbatim>\<open>saveConfig\<close> needs of an entry of a given \<^verbatim>\<open>apiKeys\<close> array:
  \<^verbatim>\<open>k.enabled\<close> must be readable, and an enabled entry must have a string as its key
  (\<^verbatim>\<open>k.key.substring\<close>).
\<close>

definition loggable :: "tree \<Rightarrow> bool" where
  "loggable k =
     (k \<noteq> TUndef \<and> k \<noteq> TNull \<and>
      (if truthy (getProp k ''enabled'')
       then (case getProp k ''key'' of TStr s \<Rightarrow> True | _ \<Rightarrow> False)
       else True))"

definition buildApiKeys :: "tree \<Rightarrow> error + tree" where
  "buildApiKeys config =
     (case getProp config ''apiKeys'' of
        TArr ks \<Rightarrow> if list_all loggable ks then Inr (TArr ks) else Inl TypeError
      | _ \<Rightarrow>
          (case js_or (getProp config ''additionalKeys'') (TArr []) of
             TArr items \<Rightarrow>
               (case additionalKeyEntries 0 items of
                  Inl e \<Rightarrow> Inl e
                | Inr entries \<Rightarrow>
                    Inr (TArr (TObj [(''key'', js_or (getProp config ''key'') (TStr [])),
                                     (''name'', TStr mainKeyName),
                                     (''enabled'', TBool True),
                                     (''index'', TNum 0)] # entries)))
           | _ \<Rightarrow> Inl TypeError))"

text \<open>
  \<^verbatim>\<open>saveConfig(config)\<close> of \<^verbatim>\<open>apiConfigManager.js\<close>, on an open connection. \<open>now\<close> is
  \<^verbatim>\<open>Date.now()\<close> and \<open>generatedId\<close> what \<^verbatim>\<open>generateConfigId()\<close> returns. The API key of
  the configuration is stored in the field \<^verbatim>\<open>key\<close> and in the entries of \<^verbatim>\<open>apiKeys\<close>.
\<close>

definition saveConfig :: "database \<Rightarrow> tree \<Rightarrow> int \<Rightarrow> string \<Rightarrow> error + (obj \<times> database)" where
  "saveConfig d config now generatedId =
     (if config = TUndef \<or> config = TNull then Inl TypeError
      else
        let configId0 = js_or (getProp config ''configId'') (getProp config ''id'');
            configId = (if \<not> truthy configId0 then TStr generatedId else configId0)
        in case buildApiKeys config of
             Inl e \<Rightarrow> Inl e
           | Inr apiKeys \<Rightarrow>
               let configData =
                     [(''id'', configId),
                      (''url'', js_or (getProp config ''url'') (TStr [])),
                      (''key'', js_or (getProp config ''key'') (TStr [])),
                      (''contextMessageCount'', js_or (getProp config ''contextMessageCount'') (TNum 10)),
                      (''timeout'', js_or (getProp config ''timeout'') (TNum 60)),
                      (''apiKeys'', apiKeys),
                      (''configName'', js_or (getProp config ''configName'')
                                         (js_or (getProp config ''name'') (TStr unnamedConfigName))),
                      (''isDefault'', js_or (getProp config ''isDefault'') (TBool False)),
                      (''createdAt'', js_or (getProp config ''createdAt'') (TNum now)),
                      (''updatedAt'', TNum now)]
               in case put d ''apiSettings'' (TObj configData) of
                    Inl e \<Rightarrow> Inl e
                  | Inr r \<Rightarrow> Inr (configData, snd r))"

section \<open>Objects in memory\<close>

text \<open>
  A snapshot that is being imported is an object graph in memory, which the program
  reads, copies and mutates: here aliasing matters, so objects and arrays live in a
  heap and values refer to them by address (the index of the cell). An object cell has
  its properties in insertion order; an array cell has its elements and, as arrays from
  \<^verbatim>\<open>JSON.parse\<close> and array literals do, no named properties.
\<close>

datatype jsval = VUndef | VNull | VBool bool | VNum int | VStr string | VRef nat

datatype cell = Obj "(string \<times> jsval) list" | Arr "jsval list"

type_synonym heap = "cell list"

fun js_truthy :: "jsval \<Rightarrow> bool" where
  "js_truthy VUndef = False"
| "js_truthy VNull = False"
| "js_truthy (VBool b) = b"
| "js_truthy (VNum n) = (n \<noteq> 0)"
| "js_truthy (VStr s) = (s \<noteq> [])"
| "js_truthy (VRef a) = True"

text \<open>\<^verbatim>\<open>Array.isArray(v)\<close>, and \<^verbatim>\<open>typeof v === 'object'\<close> for a truthy \<open>v\<close>.\<close>

definition isArray :: "heap \<Rightarrow> jsval \<Rightarrow> bool" where
  "isArray h v =
     (case v of
        VRef a \<Rightarrow> a < length h \<and> (case h ! a of Arr xs \<Rightarrow> True | Obj fs \<Rightarrow> False)
      | _ \<Rightarrow> False)"

text \<open>The elements of an array value (none for anything else).\<close>

definition elements :: "heap \<Rightarrow> jsval \<Rightarrow> jsval list" where
  "elements h v =
     (case v of
        VRef a \<Rightarrow> if a < length h then (case h ! a of Arr xs \<Rightarrow> xs | Obj fs \<Rightarrow> []) else []
      | _ \<Rightarrow> [])"

text \<open>The element of an array under the property name \<open>k\<close>, when \<open>k\<close> is an index of it.\<close>

fun indexed :: "nat \<Rightarrow> jsval list \<Rightarrow> string \<Rightarrow> jsval" where
  "indexed i [] k = VUndef"
| "indexed i (x # xs) k = (if show_nat i = k then x else indexed (i + 1) xs k)"

text \<open>
  Reading \<^verbatim>\<open>v.k\<close> and \<^verbatim>\<open>v[k]\<close>: a TypeError on \<^verbatim>\<open>undefined\<close> and \<^verbatim>\<open>null\<close>, the property
  of an object, the element or the length of an array, and \<^verbatim>\<open>undefined\<close> on every
  other value (the program reads no property that numbers, strings or booleans have).
\<close>

definition getp :: "heap \<Rightarrow> jsval \<Rightarrow> string \<Rightarrow> error + jsval" where
  "getp h v k =
     (case v of
        VUndef \<Rightarrow> Inl TypeError
      | VNull \<Rightarrow> Inl TypeError
      | VRef a \<Rightarrow>
          if a < length h
          then (case h ! a of
                  Obj fs \<Rightarrow> Inr (case map_of fs k of Some x \<Rightarrow> x | None \<Rightarrow> VUndef)
                | Arr xs \<Rightarrow> Inr (if k = ''length'' then VNum (int (length xs)) else indexed 0 xs k))
          else Inr VUndef
      | _ \<Rightarrow> Inr VUndef)"

text \<open>
  Writing \<^verbatim>\<open>v.k = x\<close>. The class body is strict code: the write is a TypeError on every
  value that is not an object. Named properties of arrays are not in the model, and a
  write of one is reported as such instead of being dropped.
\<close>

definition setp :: "heap \<Rightarrow> jsval \<Rightarrow> string \<Rightarrow> jsval \<Rightarrow> error + heap" where
  "setp h v k x =
     (case v of
        VRef a \<Rightarrow>
          if a < length h
          then (case h ! a of
                  Obj fs \<Rightarrow> Inr (h[a := Obj (AList.update k x fs)])
                | Arr xs \<Rightarrow> Inl ArrayProperty)
          else Inl TypeError
      | _ \<Rightarrow> Inl TypeError)"

text \<open>\<^verbatim>\<open>delete v.k\<close>, which removes a property of an object and changes nothing else.\<close>

definition delp :: "heap \<Rightarrow> jsval \<Rightarrow> string \<Rightarrow> error + heap" where
  "delp h v k =
     (case v of
        VUndef \<Rightarrow> Inl TypeError
      | VNull \<Rightarrow> Inl TypeError
      | VRef a \<Rightarrow>
          if a < length h
          then (case h ! a of
                  Obj fs \<Rightarrow> Inr (h[a := Obj (AList.delete k fs)])
                | Arr xs \<Rightarrow> Inr h)
          else Inr h
      | _ \<Rightarrow> Inr h)"

text \<open>
  Reading an object graph out of the heap as a tree, to a given depth. The depth
  \<open>Suc (length h)\<close> of \<open>reifyValue\<close> is reached only on a path that visits a cell twice:
  \<open>None\<close> stands for a cyclic graph.
\<close>

fun reify :: "nat \<Rightarrow> heap \<Rightarrow> jsval \<Rightarrow> tree option" where
  "reify n h VUndef = Some TUndef"
| "reify n h VNull = Some TNull"
| "reify n h (VBool b) = Some (TBool b)"
| "reify n h (VNum k) = Some (TNum k)"
| "reify n h (VStr s) = Some (TStr s)"
| "reify 0 h (VRef a) = None"
| "reify (Suc n) h (VRef a) =
     (if a < length h
      then (case h ! a of
              Obj fs \<Rightarrow>
                map_option TObj
                  (those (map (\<lambda>kv. map_option (Pair (fst kv)) (reify n h (snd kv))) fs))
            | Arr xs \<Rightarrow> map_option TArr (those (map (reify n h) xs)))
      else None)"

definition reifyValue :: "heap \<Rightarrow> jsval \<Rightarrow> tree option" where
  "reifyValue h v = reify (Suc (length h)) h v"

text \<open>
  What \<^verbatim>\<open>JSON.stringify\<close> keeps of a value: \<open>None\<close> where it gives \<^verbatim>\<open>undefined\<close>. A
  property whose value has no JSON is left out; such an element of an array becomes
  \<^verbatim>\<open>null\<close>.
\<close>

fun jsonValue :: "tree \<Rightarrow> tree option"
  and jsonElements :: "tree list \<Rightarrow> tree list"
  and jsonFields :: "(string \<times> tree) list \<Rightarrow> (string \<times> tree) list" where
  "jsonValue TUndef = None"
| "jsonValue TFun = None"
| "jsonValue TNull = Some TNull"
| "jsonValue (TBool b) = Some (TBool b)"
| "jsonValue (TNum n) = Some (TNum n)"
| "jsonValue (TStr s) = Some (TStr s)"
| "jsonValue (TBlob ty sz) = Some (TObj [])"
| "jsonValue (TArr xs) = Some (TArr (jsonElements xs))"
| "jsonValue (TObj fs) = Some (TObj (jsonFields fs))"
| "jsonElements [] = []"
| "jsonElements (x # xs) =
     (case jsonValue x of None \<Rightarrow> TNull | Some j \<Rightarrow> j) # jsonElements xs"
| "jsonFields [] = []"
| "jsonFields (kv # fs) =
     (case jsonValue (snd kv) of
        None \<Rightarrow> jsonFields fs
      | Some j \<Rightarrow> (fst kv, j) # jsonFields fs)"

text \<open>
  \<^verbatim>\<open>JSON.parse\<close> building a JSON tree in the heap: every object and array of the text
  becomes a new cell, appended to the heap.
\<close>

fun alloc :: "tree \<Rightarrow> heap \<Rightarrow> jsval \<times> heap"
  and allocElements :: "tree list \<Rightarrow> heap \<Rightarrow> jsval list \<times> heap"
  and allocFields :: "(string \<times> tree) list \<Rightarrow> heap \<Rightarrow> (string \<times> jsval) list \<times> heap" where
  "alloc TUndef h = (VUndef, h)"
| "alloc TFun h = (VUndef, h)"
| "alloc TNull h = (VNull, h)"
| "alloc (TBool b) h = (VBool b, h)"
| "alloc (TNum n) h = (VNum n, h)"
| "alloc (TStr s) h = (VStr s, h)"
| "alloc (TBlob ty sz) h = (VRef (length h), h @ [Obj []])"
| "alloc (TArr xs) h =
     (case allocElements xs h of (vs, h1) \<Rightarrow> (VRef (length h1), h1 @ [Arr vs]))"
| "alloc (TObj fs) h =
     (case allocFields fs h of (gs, h1) \<Rightarrow> (VRef (length h1), h1 @ [Obj gs]))"
| "allocElements [] h = ([], h)"
| "allocElements (x # xs) h =
     (case alloc x h of (v, h1) \<Rightarrow>
        (case allocElements xs h1 of (vs, h2) \<Rightarrow> (v # vs, h2)))"
| "allocFields [] h = ([], h)"
| "allocFields (kv # fs) h =
     (case alloc (snd kv) h of (v, h1) \<Rightarrow>
        (case allocFields fs h1 of (gs, h2) \<Rightarrow> ((fst kv, v) # gs, h2)))"

text \<open>
  \<^verbatim>\<open>JSON.parse(JSON.stringify(v))\<close>: a TypeError on a cyclic graph, a SyntaxError when
  there is no JSON text to parse, and else a deep copy in new cells.
\<close>

definition jsonCopy :: "heap \<Rightarrow> jsval \<Rightarrow> error + (jsval \<times> heap)" where
  "jsonCopy h v =
     (case reifyValue h v of
        None \<Rightarrow> Inl TypeError
      | Some t \<Rightarrow>
          (case jsonValue t of
             None \<Rightarrow> Inl SyntaxError
           | Some j \<Rightarrow> Inr (alloc j h)))"

text \<open>
  Relational comparison with a number. A number, \<^verbatim>\<open>null\<close>, a boolean and \<^verbatim>\<open>undefined\<close>
  convert as the language says (\<^verbatim>\<open>undefined\<close> to NaN, which compares false); what a
  string or an object converts to is the parameter \<open>toNumber\<close>, \<open>None\<close> for NaN.
\<close>

definition js_number :: "(heap \<Rightarrow> jsval \<Rightarrow> int option) \<Rightarrow> heap \<Rightarrow> jsval \<Rightarrow> int option" where
  "js_number toNumber h v =
     (case v of
        VNum n \<Rightarrow> Some n
      | VNull \<Rightarrow> Some 0
      | VBool b \<Rightarrow> Some (if b then 1 else 0)
      | VUndef \<Rightarrow> None
      | _ \<Rightarrow> toNumber h v)"

definition js_less :: "(heap \<Rightarrow> jsval \<Rightarrow> int option) \<Rightarrow> heap \<Rightarrow> jsval \<Rightarrow> int \<Rightarrow> bool" where
  "js_less toNumber h v n = (case js_number toNumber h v of Some k \<Rightarrow> k < n | None \<Rightarrow> False)"

definition js_le :: "(heap \<Rightarrow> jsval \<Rightarrow> int option) \<Rightarrow> heap \<Rightarrow> jsval \<Rightarrow> int \<Rightarrow> bool" where
  "js_le toNumber h v n = (case js_number toNumber h v of Some k \<Rightarrow> k \<le> n | None \<Rightarrow> False)"

section \<open>Usage metadata\<close>

text \<open>Sequencing of calls that may raise.\<close>

definition bindE :: "error + 'a \<Rightarrow> ('a \<Rightarrow> error + 'b) \<Rightarrow> error + 'b" where
  "bindE x f = (case x of Inl e \<Rightarrow> Inl e | Inr y \<Rightarrow> f y)"

text \<open>
  \<^verbatim>\<open>setImageUsageMetadata(fileId, usageType, metadata = {})\<close>: an upsert of the usage
  record into the live store \<^verbatim>\<open>imageUsageMetadata\<close>. \<open>now\<close> is the current time stamp.
\<close>

definition setImageUsageMetadata ::
  "database \<Rightarrow> string \<Rightarrow> tree \<Rightarrow> tree \<Rightarrow> tree \<Rightarrow> error + (obj \<times> database)" where
  "setImageUsageMetadata d now fileId usageType metadata0 =
     (let metadata = (if metadata0 = TUndef then TObj [] else metadata0) in
      if metadata = TNull then Inl TypeError
      else
        let usageData =
              [(''fileId'', fileId),
               (''usageType'', usageType),
               (''createdAt'', js_or (getProp metadata ''createdAt'') (TStr now)),
               (''category'', js_or (getProp metadata ''category'') (TStr ''general'')),
               (''tags'', js_or (getProp metadata ''tags'') (TArr [])),
               (''size'', js_or (getProp metadata ''size'') (TNum 0)),
               (''fileName'', js_or (getProp metadata ''fileName'') TNull)]
        in case put d ''imageUsageMetadata'' (TObj usageData) of
             Inl e \<Rightarrow> Inl e
           | Inr r \<Rightarrow> Inr (usageData, snd r))"

section \<open>Data migration of a snapshot\<close>

text \<open>The string a value has in a template literal.\<close>

definition show_int :: "int \<Rightarrow> string" where
  "show_int n = (if n < 0 then CHR ''-'' # show_nat (nat (- n)) else show_nat (nat n))"

fun toStr :: "tree \<Rightarrow> string" and joinStr :: "tree list \<Rightarrow> string" where
  "toStr TUndef = ''undefined''"
| "toStr TNull = ''null''"
| "toStr (TBool b) = (if b then ''true'' else ''false'')"
| "toStr (TNum n) = show_int n"
| "toStr (TStr s) = s"
| "toStr (TArr xs) = joinStr xs"
| "toStr (TObj fs) = ''[object Object]''"
| "toStr (TBlob ty sz) = ''[object Blob]''"
| "toStr TFun = ''function''"
| "joinStr [] = []"
| "joinStr (x # xs) =
     (if x = TUndef \<or> x = TNull then [] else toStr x) @ (if xs = [] then [] else '','' @ joinStr xs)"

text \<open>The tag and the fallback author name of the back-fill, as UTF-8 bytes.\<close>

definition momentsTag :: string where
  "momentsTag = [CHR 0xE6, CHR 0x9C, CHR 0x8B, CHR 0xE5, CHR 0x8F, CHR 0x8B, CHR 0xE5, CHR 0x9C, CHR 0x88]"

definition unknownAuthor :: string where
  "unknownAuthor = [CHR 0xE6, CHR 0x9C, CHR 0xAA, CHR 0xE7, CHR 0x9F, CHR 0xA5]"

text \<open>
  A step of the form \<^verbatim>\<open>if (!data.k) data.k = []\<close>: the array literal is a new cell.
\<close>

definition initCollection :: "heap \<Rightarrow> jsval \<Rightarrow> string \<Rightarrow> error + heap" where
  "initCollection h data k =
     bindE (getp h data k)
       (\<lambda>v. if \<not> js_truthy v then setp (h @ [Arr []]) data k (VRef (length h)) else Inr h)"

definition migrateFrom4To5 :: "heap \<Rightarrow> jsval \<Rightarrow> error + heap" where
  "migrateFrom4To5 h data =
     bindE (initCollection h data ''characterMemories'')
       (\<lambda>h1. initCollection h1 data ''globalMemory'')"

definition migrateFrom5To6 :: "heap \<Rightarrow> jsval \<Rightarrow> error + heap" where
  "migrateFrom5To6 h data = Inr h"

definition migrateFrom6To7 :: "heap \<Rightarrow> jsval \<Rightarrow> error + heap" where
  "migrateFrom6To7 h data = Inr h"

definition migrateFrom7To8 :: "heap \<Rightarrow> jsval \<Rightarrow> error + heap" where
  "migrateFrom7To8 h data =
     bindE (initCollection h data ''fileStorage'')
       (\<lambda>h1. initCollection h1 data ''fileReferences'')"

definition migrateFrom8To9 :: "heap \<Rightarrow> jsval \<Rightarrow> error + heap" where
  "migrateFrom8To9 h data = Inr h"

definition migrateFrom9To10 :: "heap \<Rightarrow> jsval \<Rightarrow> error + heap" where
  "migrateFrom9To10 h data = initCollection h data ''themeConfig''"

definition migrateFrom10To11 :: "heap \<Rightarrow> jsval \<Rightarrow> error + heap" where
  "migrateFrom10To11 h data = Inr h"

definition migrateFrom11To12 :: "heap \<Rightarrow> jsval \<Rightarrow> error + heap" where
  "migrateFrom11To12 h data =
     bindE (getp h data ''bubbleDesignerStickers'')
       (\<lambda>v. if js_truthy v then delp h data ''bubbleDesignerStickers'' else Inr h)"

definition migrateFrom12To13 :: "heap \<Rightarrow> jsval \<Rightarrow> error + heap" where
  "migrateFrom12To13 h data = Inr h"

text \<open>
  \<^verbatim>\<open>fileReferences.find(ref => ref.referenceType === 'emoji' && ref.referenceKey ===
  emoji.tag)\<close>: the first match, \<^verbatim>\<open>undefined\<close> when there is none, a TypeError at an
  element that is \<^verbatim>\<open>null\<close> or \<^verbatim>\<open>undefined\<close>.
\<close>

fun findRef :: "heap \<Rightarrow> jsval \<Rightarrow> jsval list \<Rightarrow> error + jsval" where
  "findRef h tag [] = Inr VUndef"
| "findRef h tag (ref # rest) =
     bindE (getp h ref ''referenceType'')
       (\<lambda>ty. if ty = VStr ''emoji''
             then bindE (getp h ref ''referenceKey'')
                    (\<lambda>key. if key = tag then Inr ref else findRef h tag rest)
             else findRef h tag rest)"

text \<open>
  The values the back-fill hands to \<^verbatim>\<open>setImageUsageMetadata\<close> are read out of the heap
  as trees. The step is reached with the JSON copy only, which has no cycles; a cyclic
  value would be reported as DataCloneError.
\<close>

definition reifyE :: "heap \<Rightarrow> jsval \<Rightarrow> error + tree" where
  "reifyE h v = (case reifyValue h v of None \<Rightarrow> Inl DataCloneError | Some t \<Rightarrow> Inr t)"

text \<open>The body of the loop over \<^verbatim>\<open>data.emojis\<close>.\<close>

definition emojiStep :: "string \<Rightarrow> heap \<Rightarrow> jsval \<Rightarrow> database \<Rightarrow> jsval \<Rightarrow> error + database" where
  "emojiStep now h data d emoji =
     bindE (getp h emoji ''id'') (\<lambda>emojiId.
       if \<not> js_truthy emojiId then Inr d
       else bindE (getp h emoji ''tag'') (\<lambda>tag.
         if \<not> js_truthy tag then Inr d
         else bindE (getp h data ''fileReferences'') (\<lambda>refs.
           bindE (if \<not> js_truthy refs then Inr VUndef
                  else if isArray h refs then findRef h tag (elements h refs)
                  else Inl TypeError) (\<lambda>emojiFile.
             if \<not> js_truthy emojiFile then Inr d
             else bindE (getp h emojiFile ''fileId'') (\<lambda>fileId.
               if \<not> js_truthy fileId then Inr d
               else bindE (getp h emoji ''createdAt'') (\<lambda>createdAt.
                 bindE (reifyE h fileId) (\<lambda>fileIdT.
                   bindE (reifyE h tag) (\<lambda>tagT.
                     bindE (reifyE h createdAt) (\<lambda>createdAtT.
                       bindE (setImageUsageMetadata d now fileIdT (TStr ''general'')
                                (TObj [(''category'', TStr ''emoji''),
                                       (''tags'', TArr [tagT]),
                                       (''createdAt'', js_or createdAtT (TStr now)),
                                       (''fileName'', tagT)]))
                         (\<lambda>r. Inr (snd r)))))))))))"

text \<open>
  The loops of the back-fill stop at the first exception; what was written before it
  stays written, so each loop returns the error it stopped at, if any, with the
  database as it then is.
\<close>

fun emojiLoop ::
  "string \<Rightarrow> heap \<Rightarrow> jsval \<Rightarrow> database \<Rightarrow> jsval list \<Rightarrow> error option \<times> database" where
  "emojiLoop now h data d [] = (None, d)"
| "emojiLoop now h data d (emoji # rest) =
     (case emojiStep now h data d emoji of
        Inl e \<Rightarrow> (Some e, d)
      | Inr d' \<Rightarrow> emojiLoop now h data d' rest)"

text \<open>The inner loop over \<^verbatim>\<open>moment.imageFileIds\<close>, from index \<open>i\<close>.\<close>

fun fileIdLoop ::
  "string \<Rightarrow> heap \<Rightarrow> jsval \<Rightarrow> nat \<Rightarrow> database \<Rightarrow> jsval list \<Rightarrow> error option \<times> database" where
  "fileIdLoop now h moment i d [] = (None, d)"
| "fileIdLoop now h moment i d (fileId # rest) =
     (case bindE (getp h moment ''authorName'') (\<lambda>authorName.
             bindE (getp h moment ''timestamp'') (\<lambda>timestamp.
               bindE (getp h moment ''id'') (\<lambda>momentId.
                 bindE (reifyE h fileId) (\<lambda>fileIdT.
                   bindE (reifyE h authorName) (\<lambda>authorNameT.
                     bindE (reifyE h timestamp) (\<lambda>timestampT.
                       bindE (reifyE h momentId) (\<lambda>momentIdT.
                         setImageUsageMetadata d now fileIdT (TStr ''general'')
                           (TObj [(''category'', TStr ''moments''),
                                  (''tags'', TArr [TStr momentsTag,
                                                   js_or authorNameT (TStr unknownAuthor)]),
                                  (''createdAt'', js_or timestampT (TStr now)),
                                  (''fileName'',
                                   TStr (''moment_'' @ toStr momentIdT @ ''_'' @ show_nat (i + 1)
                                           @ ''.jpg''))])))))))) of
        Inl e \<Rightarrow> (Some e, d)
      | Inr r \<Rightarrow> fileIdLoop now h moment (i + 1) (snd r) rest)"

fun momentLoop ::
  "string \<Rightarrow> heap \<Rightarrow> database \<Rightarrow> jsval list \<Rightarrow> error option \<times> database" where
  "momentLoop now h d [] = (None, d)"
| "momentLoop now h d (moment # rest) =
     (case getp h moment ''imageFileIds'' of
        Inl e \<Rightarrow> (Some e, d)
      | Inr ids \<Rightarrow>
          if js_truthy ids \<and> isArray h ids
          then (case fileIdLoop now h moment 0 d (elements h ids) of
                  (Some e, d') \<Rightarrow> (Some e, d')
                | (None, d') \<Rightarrow> momentLoop now h d' rest)
          else momentLoop now h d rest)"

text \<open>
  \<^verbatim>\<open>migrateFrom13To14(data)\<close>. Its \<^verbatim>\<open>try\<close> spans both loops and its \<^verbatim>\<open>catch\<close> only logs:
  the step raises nothing. It returns the error it logged, if any, and the live
  database, into which every \<^verbatim>\<open>setImageUsageMetadata\<close> before the error has written.
\<close>

definition migrateFrom13To14 ::
  "string \<Rightarrow> heap \<Rightarrow> database \<Rightarrow> jsval \<Rightarrow> error option \<times> database" where
  "migrateFrom13To14 now h d data =
     (case getp h data ''emojis'' of
        Inl e \<Rightarrow> (Some e, d)
      | Inr emojis \<Rightarrow>
          (case (if js_truthy emojis \<and> isArray h emojis
                 then emojiLoop now h data d (elements h emojis)
                 else (None, d)) of
             (Some e, d1) \<Rightarrow> (Some e, d1)
           | (None, d1) \<Rightarrow>
               (case getp h data ''moments'' of
                  Inl e \<Rightarrow> (Some e, d1)
                | Inr moments \<Rightarrow>
                    if js_truthy moments \<and> isArray h moments
                    then momentLoop now h d1 (elements h moments)
                    else (None, d1))))"

text \<open>
  The part of \<^verbatim>\<open>migrateData\<close> that works in memory: the deep copy, the three writes to
  the copy's \<^verbatim>\<open>_metadata\<close>, and the steps 4 to 13, each under its guard
  \<^verbatim>\<open>fromVersion <= k\<close> (the other half of the guard, \<^verbatim>\<open>toVersion >= k + 1\<close>, holds for the
  target 14).
\<close>

definition guarded ::
  "bool \<Rightarrow> (heap \<Rightarrow> jsval \<Rightarrow> error + heap) \<Rightarrow> jsval \<Rightarrow> heap \<Rightarrow> error + heap" where
  "guarded g step data h = (if g then step h data else Inr h)"

definition setMetadata :: "heap \<Rightarrow> jsval \<Rightarrow> string \<Rightarrow> jsval \<Rightarrow> error + heap" where
  "setMetadata h migratedData k x =
     bindE (getp h migratedData ''_metadata'') (\<lambda>metadata. setp h metadata k x)"

definition migrateCopy ::
  "(heap \<Rightarrow> jsval \<Rightarrow> int option) \<Rightarrow> string \<Rightarrow> heap \<Rightarrow> jsval \<Rightarrow> jsval
     \<Rightarrow> error + (jsval \<times> heap)" where
  "migrateCopy toNumber now h importData fromVersion =
     bindE (jsonCopy h importData) (\<lambda>c.
       let migratedData = fst c in
       bindE (setMetadata (snd c) migratedData ''version'' (VNum 14)) (\<lambda>h1.
       bindE (setMetadata h1 migratedData ''migrationTime'' (VStr now)) (\<lambda>h2.
       bindE (setMetadata h2 migratedData ''originalVersion'' fromVersion) (\<lambda>h3.
       bindE (guarded (js_le toNumber h3 fromVersion 4) migrateFrom4To5 migratedData h3) (\<lambda>h4.
       bindE (guarded (js_le toNumber h4 fromVersion 5) migrateFrom5To6 migratedData h4) (\<lambda>h5.
       bindE (guarded (js_le toNumber h5 fromVersion 6) migrateFrom6To7 migratedData h5) (\<lambda>h6.
       bindE (guarded (js_le toNumber h6 fromVersion 7) migrateFrom7To8 migratedData h6) (\<lambda>h7.
       bindE (guarded (js_le toNumber h7 fromVersion 8) migrateFrom8To9 migratedData h7) (\<lambda>h8.
       bindE (guarded (js_le toNumber h8 fromVersion 9) migrateFrom9To10 migratedData h8) (\<lambda>h9.
       bindE (guarded (js_le toNumber h9 fromVersion 10) migrateFrom10To11 migratedData h9) (\<lambda>h10.
       bindE (guarded (js_le toNumber h10 fromVersion 11) migrateFrom11To12 migratedData h10) (\<lambda>h11.
       bindE (guarded (js_le toNumber h11 fromVersion 12) migrateFrom12To13 migratedData h11) (\<lambda>h12.
         Inr (migratedData, h12))))))))))))))"

text \<open>
  The start of \<^verbatim>\<open>migrateData\<close>, up to the step 12 to 13: \<^verbatim>\<open>fromVersion\<close> is read from
  the input, then the copy is made and migrated. The result is \<^verbatim>\<open>fromVersion\<close>, the copy
  and the heap.
\<close>

definition migrateInMemory ::
  "(heap \<Rightarrow> jsval \<Rightarrow> int option) \<Rightarrow> string \<Rightarrow> heap \<Rightarrow> jsval
     \<Rightarrow> error + (jsval \<times> jsval \<times> heap)" where
  "migrateInMemory toNumber now h importData =
     bindE (getp h importData ''_metadata'') (\<lambda>metadata.
       bindE (if js_truthy metadata then getp h metadata ''version'' else Inr (VNum 1))
         (\<lambda>fromVersion.
            bindE (migrateCopy toNumber now h importData fromVersion)
              (\<lambda>r. Inr (fromVersion, r))))"

text \<open>
  \<^verbatim>\<open>migrateData(importData)\<close> for the target version 14. The result is the migrated
  copy with the heap, or the exception, and in both cases the live database: the last
  step, 13 to 14, writes to it.
\<close>

definition migrateData ::
  "(heap \<Rightarrow> jsval \<Rightarrow> int option) \<Rightarrow> string \<Rightarrow> heap \<Rightarrow> database \<Rightarrow> jsval
     \<Rightarrow> (error + (jsval \<times> heap)) \<times> database" where
  "migrateData toNumber now h d importData =
     (case migrateInMemory toNumber now h importData of
        Inl e \<Rightarrow> (Inl e, d)
      | Inr (fromVersion, migratedData, h') \<Rightarrow>
          if js_le toNumber h' fromVersion 13
          then (Inr (migratedData, h'), snd (migrateFrom13To14 now h' d migratedData))
          else (Inr (migratedData, h'), d))"

section \<open>Import\<close>

text \<open>
  The result of \<^verbatim>\<open>importStore\<close>, \<^verbatim>\<open>{total, added, skipped, errors}\<close>: the last field has
  the name of the variable it is read from, \<^verbatim>\<open>errorCount\<close>.
\<close>

record import_result =
  total :: nat
  added :: nat
  skipped :: nat
  errorCount :: nat

text \<open>The handlers \<^verbatim>\<open>request.onsuccess\<close> and \<^verbatim>\<open>request.onerror\<close> of \<^verbatim>\<open>importStore\<close>.\<close>

definition onsuccess :: "import_result \<Rightarrow> import_result" where
  "onsuccess c = c\<lparr>added := added c + 1\<rparr>"

definition onerror :: "error \<Rightarrow> import_result \<Rightarrow> import_result" where
  "onerror e c =
     (if e = ConstraintError then c\<lparr>skipped := skipped c + 1\<rparr>
      else c\<lparr>errorCount := errorCount c + 1\<rparr>)"

text \<open>
  \<^verbatim>\<open>data.forEach(item => ...)\<close> queues one request per item. \<^verbatim>\<open>put\<close> and \<^verbatim>\<open>add\<close> check
  the item when they are called: an item that cannot be stored raises there, which ends
  the loop, and the requests queued before it stay queued.
\<close>

fun placeRequests ::
  "store \<Rightarrow> heap \<Rightarrow> jsval list \<Rightarrow> (tree option \<times> obj) list \<times> error option" where
  "placeRequests s h [] = ([], None)"
| "placeRequests s h (item # rest) =
     (case reifyE h item of
        Inl e \<Rightarrow> ([], Some e)
      | Inr v \<Rightarrow>
          (case extractKey s v of
             Inl e \<Rightarrow> ([], Some e)
           | Inr request \<Rightarrow>
               (case placeRequests s h rest of
                  (requests, thrown) \<Rightarrow> (request # requests, thrown))))"

text \<open>
  The engine running the queued requests of the transaction, in order, and calling the
  handlers. A \<^verbatim>\<open>put\<close> succeeds; an \<^verbatim>\<open>add\<close> succeeds unless its key is in the store, where
  it fails with ConstraintError. The engine's error event goes to \<^verbatim>\<open>request.onerror\<close>,
  then bubbles to \<^verbatim>\<open>transaction.onerror\<close>, and, since no handler of the program calls
  \<^verbatim>\<open>preventDefault()\<close> on it, the engine then aborts the transaction: every change of
  the transaction is undone and each request still queued fails with AbortError. The
  result is the store, or \<open>None\<close> after an abort, and the counters.
\<close>

fun runRequests ::
  "bool \<Rightarrow> store \<Rightarrow> (tree option \<times> obj) list \<Rightarrow> import_result
     \<Rightarrow> store option \<times> import_result" where
  "runRequests overwrite s [] c = (Some s, c)"
| "runRequests overwrite s (request # rest) c =
     (if \<not> overwrite \<and> (case fst request of Some k \<Rightarrow> map_of (rows s) k \<noteq> None | None \<Rightarrow> False)
      then (None, fold (\<lambda>r. onerror AbortError) rest (onerror ConstraintError c))
      else runRequests overwrite (storeRecord s request) rest (onsuccess c))"

text \<open>
  \<^verbatim>\<open>importStore(storeName, data, overwrite)\<close>. The promise is rejected by an exception
  in its executor (no such store, \<^verbatim>\<open>data.forEach\<close> not a function, an item that cannot
  be stored) and by \<^verbatim>\<open>transaction.onerror\<close>, which passes \<^verbatim>\<open>transaction.error\<close>: that is
  still \<^verbatim>\<open>null\<close> while the error event of a request is dispatched. It is resolved with
  the counters by \<^verbatim>\<open>transaction.oncomplete\<close>. The first of these decides. Requests that
  were queued before an exception are still run and, if none fails, committed.
\<close>

definition importStore ::
  "database \<Rightarrow> heap \<Rightarrow> string \<Rightarrow> jsval \<Rightarrow> bool \<Rightarrow> (error + import_result) \<times> database" where
  "importStore d h storeName data overwrite =
     (case map_of d storeName of
        None \<Rightarrow> (Inl NotFoundError, d)
      | Some s \<Rightarrow>
          if \<not> isArray h data then (Inl TypeError, d)
          else
            (case placeRequests s h (elements h data) of
               (requests, thrown) \<Rightarrow>
                 (case runRequests overwrite s requests
                         \<lparr>total = length (elements h data), added = 0, skipped = 0, errorCount = 0\<rparr> of
                    (None, c) \<Rightarrow>
                      (Inl (case thrown of Some e \<Rightarrow> e | None \<Rightarrow> NullRejection), d)
                  | (Some s', c) \<Rightarrow>
                      (case thrown of Some e \<Rightarrow> Inl e | None \<Rightarrow> Inr c,
                       AList.update storeName s' d))))"

text \<open>\<^verbatim>\<open>clearStore(storeName)\<close>: \<^verbatim>\<open>store.clear()\<close> removes the rows and nothing else.\<close>

definition clearStore :: "database \<Rightarrow> string \<Rightarrow> error + database" where
  "clearStore d storeName =
     (case map_of d storeName of
        None \<Rightarrow> Inl NotFoundError
      | Some s \<Rightarrow> Inr (AList.update storeName (s\<lparr>rows := []\<rparr>) d))"

record import_options =
  overwrite :: bool
  validateVersion :: bool
  importStores :: "string list option"   \<comment> \<open>the option \<^verbatim>\<open>stores\<close>, \<open>None\<close> for \<^verbatim>\<open>null\<close>\<close>
  enableMigration :: bool

record import_report =
  importedStores :: "string list"
  results :: "(string \<times> import_result) list"
  migrated :: bool

text \<open>
  \<^verbatim>\<open>Object.keys(v)\<close> of an object or array: the property names in insertion order, the
  indexes of an array. (No store name of the program is an array index, which the
  language would enumerate first.)
\<close>

definition objectKeys :: "heap \<Rightarrow> jsval \<Rightarrow> string list" where
  "objectKeys h v =
     (case v of
        VRef a \<Rightarrow>
          if a < length h
          then (case h ! a of
                  Obj fs \<Rightarrow> map fst fs
                | Arr xs \<Rightarrow> map show_nat [0 ..< length xs])
          else []
      | _ \<Rightarrow> [])"

text \<open>The loop that clears the target stores when \<^verbatim>\<open>overwrite\<close> is set.\<close>

fun clearLoop :: "database \<Rightarrow> string list \<Rightarrow> error + database" where
  "clearLoop d [] = Inr d"
| "clearLoop d (storeName # rest) =
     (if map_of d storeName \<noteq> None
      then bindE (clearStore d storeName) (\<lambda>d'. clearLoop d' rest)
      else clearLoop d rest)"

text \<open>
  The loop that imports the stores. A rejected \<^verbatim>\<open>importStore\<close> ends it with the
  exception; the stores imported before it stay imported.
\<close>

fun importLoop ::
  "database \<Rightarrow> heap \<Rightarrow> jsval \<Rightarrow> bool \<Rightarrow> string list \<Rightarrow> (string \<times> import_result) list
     \<Rightarrow> (error + (string \<times> import_result) list) \<times> database" where
  "importLoop d h migratedData ow [] importResults = (Inr importResults, d)"
| "importLoop d h migratedData ow (storeName # rest) importResults =
     (if map_of d storeName \<noteq> None
      then (case getp h migratedData storeName of
              Inl e \<Rightarrow> (Inl e, d)
            | Inr data \<Rightarrow>
                if js_truthy data
                then (case importStore d h storeName data ow of
                        (Inl e, d') \<Rightarrow> (Inl e, d')
                      | (Inr result, d') \<Rightarrow>
                          importLoop d' h migratedData ow rest
                            (AList.update storeName result importResults))
                else importLoop d h migratedData ow rest importResults)
      else importLoop d h migratedData ow rest importResults)"

text \<open>
  \<^verbatim>\<open>importDatabase\<close> from the comment "determine the stores to import" on, for the
  snapshot \<open>importData\<close> it was called with and the snapshot \<open>migratedData\<close> it imports.
\<close>

definition importPhase ::
  "heap \<Rightarrow> database \<Rightarrow> jsval \<Rightarrow> jsval \<Rightarrow> import_options
     \<Rightarrow> (error + import_report) \<times> database" where
  "importPhase h d importData migratedData options =
     (let storesToImport =
            (case importStores options of
               Some names \<Rightarrow> names
             | None \<Rightarrow> filter (\<lambda>key. key \<noteq> ''_metadata'') (objectKeys h migratedData))
      in case (if overwrite options then clearLoop d storesToImport else Inr d) of
           Inl e \<Rightarrow> (Inl e, d)
         | Inr d1 \<Rightarrow>
             (case importLoop d1 h migratedData (overwrite options) storesToImport [] of
                (Inl e, d2) \<Rightarrow> (Inl e, d2)
              | (Inr importResults, d2) \<Rightarrow>
                  (Inr \<lparr>importedStores = storesToImport, results = importResults,
                        migrated = (migratedData \<noteq> importData)\<rparr>, d2)))"

text \<open>
  The \<^verbatim>\<open>try\<close> block of \<^verbatim>\<open>importDatabase(importData, options)\<close> on an open connection:
  the shape check, the version check with the migration, and the import.
\<close>

definition importDatabase_try ::
  "(heap \<Rightarrow> jsval \<Rightarrow> int option) \<Rightarrow> string \<Rightarrow> heap \<Rightarrow> database \<Rightarrow> jsval \<Rightarrow> import_options
     \<Rightarrow> (error + import_report) \<times> heap \<times> database" where
  "importDatabase_try toNumber now h d importData options =
     (case importData of
        VRef a \<Rightarrow>
          (case bindE (getp h importData ''_metadata'') (\<lambda>metadata.
                  if js_truthy metadata
                  then bindE (getp h metadata ''version'') (\<lambda>version. Inr (Some version))
                  else Inr None) of
             Inl e \<Rightarrow> (Inl e, h, d)
           | Inr None \<Rightarrow>
               (case importPhase h d importData importData options of
                  (r, d') \<Rightarrow> (r, h, d'))
           | Inr (Some version) \<Rightarrow>
               if version \<noteq> VNum 14
               then
                 (if enableMigration options \<and> js_less toNumber h version 14
                  then (case migrateData toNumber now h d importData of
                          (Inl e, d1) \<Rightarrow> (Inl e, h, d1)
                        | (Inr (migratedData, h1), d1) \<Rightarrow>
                            (case importPhase h1 d1 importData migratedData options of
                               (r, d') \<Rightarrow> (r, h1, d')))
                  else if validateVersion options then (Inl VersionMismatch, h, d)
                  else (case importPhase h d importData importData options of
                          (r, d') \<Rightarrow> (r, h, d')))
               else (case importPhase h d importData importData options of
                       (r, d') \<Rightarrow> (r, h, d')))
      | _ \<Rightarrow> (Inl ImportFormatInvalid, h, d))"

text \<open>
  \<^verbatim>\<open>importDatabase\<close>: the \<^verbatim>\<open>catch\<close> raises a new error with the message of the one it
  caught, and reading the message of \<^verbatim>\<open>null\<close> is a TypeError.
\<close>

definition importDatabase ::
  "(heap \<Rightarrow> jsval \<Rightarrow> int option) \<Rightarrow> string \<Rightarrow> heap \<Rightarrow> database \<Rightarrow> jsval \<Rightarrow> import_options
     \<Rightarrow> (error + import_report) \<times> heap \<times> database" where
  "importDatabase toNumber now h d importData options =
     (case importDatabase_try toNumber now h d importData options of
        (Inl e, h', d') \<Rightarrow> (Inl (if e = NullRejection then TypeError else ImportFailed e), h', d')
      | (Inr r, h', d') \<Rightarrow> (Inr r, h', d'))"

section \<open>The connection lifecycle\<close>

text \<open>
  \<^verbatim>\<open>init\<close> is asynchronous: a call runs to its first \<^verbatim>\<open>await\<close>, and is resumed when the
  promise it awaits is settled; in between, other calls and the handlers of the engine
  run, each to completion. The model has one state of the manager and one transition
  for each piece of code that runs without interruption. An open request of the engine
  and the promise that \<^verbatim>\<open>_performInit\<close> makes for it are one \<open>promise\<close>, numbered in the
  order of the requests; a connection object is a number; a call is numbered when it is
  made.
\<close>

datatype promise = Pending | Resolved nat | Rejected

datatype outcome = Returned nat | Thrown

text \<open>
  The fields \<^verbatim>\<open>db\<close>, \<^verbatim>\<open>isReady\<close> and \<^verbatim>\<open>initPromise\<close> of the manager, with the open requests
  made so far, the requests for which the upgrade callback has fired, the calls that are
  at their \<^verbatim>\<open>await\<close> (with the promise each awaits, and whether the call is the one that
  made it), the calls that have finished, and the number of calls made.
\<close>

record lifecycle =
  connection :: "nat option"
  isReady :: bool
  initPromise :: "nat option"
  requests :: "promise list"
  upgraded :: "nat list"
  awaiting :: "(nat \<times> nat \<times> bool) list"
  outcomes :: "(nat \<times> outcome) list"
  calls :: nat

text \<open>The manager as its constructor leaves it.\<close>

definition constructed :: lifecycle where
  "constructed =
     \<lparr>connection = None, isReady = False, initPromise = None, requests = [], upgraded = [],
      awaiting = [], outcomes = [], calls = 0\<rparr>"

text \<open>
  \<^verbatim>\<open>_performInit()\<close>: the executor of the promise runs at once and calls
  \<^verbatim>\<open>indexedDB.open\<close>, which starts a physical open.
\<close>

definition performInit :: "lifecycle \<Rightarrow> nat \<times> lifecycle" where
  "performInit s = (length (requests s), s\<lparr>requests := requests s @ [Pending]\<rparr>)"

text \<open>
  A call of \<^verbatim>\<open>init()\<close>, up to its \<^verbatim>\<open>return\<close> or its first \<^verbatim>\<open>await\<close>: with
  \<^verbatim>\<open>this.isReady && this.db\<close> it returns the connection; with an \<^verbatim>\<open>initPromise\<close> it awaits
  it; otherwise it stores the promise of \<^verbatim>\<open>_performInit()\<close> in \<^verbatim>\<open>initPromise\<close> and awaits
  that.
\<close>

definition init :: "lifecycle \<Rightarrow> lifecycle" where
  "init s =
     (let c = calls s; s0 = s\<lparr>calls := calls s + 1\<rparr> in
      case (if isReady s then connection s else None) of
        Some x \<Rightarrow> s0\<lparr>outcomes := outcomes s0 @ [(c, Returned x)]\<rparr>
      | None \<Rightarrow>
          (case initPromise s of
             Some p \<Rightarrow> s0\<lparr>awaiting := awaiting s0 @ [(c, p, False)]\<rparr>
           | None \<Rightarrow>
               (case performInit s0 of
                  (p, s1) \<Rightarrow> s1\<lparr>initPromise := Some p, awaiting := awaiting s1 @ [(c, p, True)]\<rparr>)))"

text \<open>What an \<^verbatim>\<open>await\<close> of a promise gives, once the promise is settled.\<close>

definition settle :: "promise \<Rightarrow> outcome option" where
  "settle p = (case p of Pending \<Rightarrow> None | Resolved x \<Rightarrow> Some (Returned x) | Rejected \<Rightarrow> Some Thrown)"

text \<open>
  The rest of a call of \<^verbatim>\<open>init()\<close> after its \<^verbatim>\<open>await\<close>, possible when the promise is
  settled. The call that made the promise sets \<^verbatim>\<open>initPromise\<close> to \<^verbatim>\<open>null\<close>, in its \<^verbatim>\<open>try\<close>
  as in its \<^verbatim>\<open>catch\<close>; every call returns the result or raises the error.
\<close>

definition init_resume :: "lifecycle \<Rightarrow> nat \<Rightarrow> lifecycle option" where
  "init_resume s c =
     (case map_of (awaiting s) c of
        None \<Rightarrow> None
      | Some (p, starter) \<Rightarrow>
          if p < length (requests s)
          then (case settle (requests s ! p) of
                  None \<Rightarrow> None
                | Some r \<Rightarrow>
                    Some (s\<lparr>initPromise := (if starter then None else initPromise s),
                            awaiting := AList.delete c (awaiting s),
                            outcomes := outcomes s @ [(c, r)]\<rparr>))
          else None)"

text \<open>
  The handlers of \<^verbatim>\<open>_performInit\<close>. The engine calls \<^verbatim>\<open>onupgradeneeded\<close>, which runs
  \<^verbatim>\<open>_createStores\<close>, at most once for a request, while the request is pending; it calls
  one of \<^verbatim>\<open>onsuccess\<close> and \<^verbatim>\<open>onerror\<close>, once, which ends the request. \<^verbatim>\<open>onsuccess\<close> stores
  the connection, sets \<^verbatim>\<open>isReady\<close> and resolves the promise; \<^verbatim>\<open>onerror\<close> rejects it.
\<close>

definition onupgradeneeded :: "lifecycle \<Rightarrow> nat \<Rightarrow> lifecycle option" where
  "onupgradeneeded s p =
     (if p < length (requests s) \<and> requests s ! p = Pending \<and> p \<notin> set (upgraded s)
      then Some (s\<lparr>upgraded := upgraded s @ [p]\<rparr>)
      else None)"

definition open_onsuccess :: "lifecycle \<Rightarrow> nat \<Rightarrow> nat \<Rightarrow> lifecycle option" where
  "open_onsuccess s p x =
     (if p < length (requests s) \<and> requests s ! p = Pending
      then Some (s\<lparr>connection := Some x, isReady := True, requests := (requests s)[p := Resolved x]\<rparr>)
      else None)"

definition open_onerror :: "lifecycle \<Rightarrow> nat \<Rightarrow> lifecycle option" where
  "open_onerror s p =
     (if p < length (requests s) \<and> requests s ! p = Pending
      then Some (s\<lparr>requests := (requests s)[p := Rejected]\<rparr>)
      else None)"

text \<open>
  What can happen next: a call of \<^verbatim>\<open>init\<close>, the resumption of an awaiting call, and the
  three events of the engine on a request. \<open>fire\<close> is \<open>None\<close> when the event cannot
  happen in the state; \<open>run\<close> lets a sequence of events happen.
\<close>

datatype event = Call | Resume nat | UpgradeNeeded nat | Success nat nat | Failure nat

fun fire :: "lifecycle \<Rightarrow> event \<Rightarrow> lifecycle option" where
  "fire s Call = Some (init s)"
| "fire s (Resume c) = init_resume s c"
| "fire s (UpgradeNeeded p) = onupgradeneeded s p"
| "fire s (Success p x) = open_onsuccess s p x"
| "fire s (Failure p) = open_onerror s p"

fun run :: "lifecycle \<Rightarrow> event list \<Rightarrow> lifecycle option" where
  "run s [] = Some s"
| "run s (e # es) = (case fire s e of None \<Rightarrow> None | Some s' \<Rightarrow> run s' es)"

text \<open>
  The invariant of the lifecycle. Every request but the last has failed. If the last is
  pending, it is the one in \<^verbatim>\<open>initPromise\<close>; if it has succeeded, the manager is ready and
  holds its connection, and the manager is ready only then. A call has returned the
  connection the manager holds, and has raised only after a failure. The upgrade
  callback has fired once at most for a request. A call that made the promise it awaits
  awaits the last request, which is the one in \<^verbatim>\<open>initPromise\<close>, and there is one such call
  at most.
\<close>

definition coalesced :: "lifecycle \<Rightarrow> bool" where
  "coalesced s =
     (list_all (\<lambda>q. q = Rejected) (butlast (requests s)) \<and>
      (requests s \<noteq> [] \<and> last (requests s) = Pending \<longrightarrow>
         initPromise s = Some (length (requests s) - 1)) \<and>
      (\<forall>x. requests s \<noteq> [] \<and> last (requests s) = Resolved x \<longrightarrow>
         isReady s \<and> connection s = Some x) \<and>
      (isReady s \<longrightarrow> requests s \<noteq> [] \<and> (\<exists>x. last (requests s) = Resolved x)) \<and>
      list_all (\<lambda>r. case snd r of Returned x \<Rightarrow> isReady s \<and> connection s = Some x
                               | Thrown \<Rightarrow> Rejected \<in> set (requests s)) (outcomes s) \<and>
      distinct (upgraded s) \<and> list_all (\<lambda>p. p < length (requests s)) (upgraded s) \<and>
      list_all (\<lambda>a. snd (snd a) \<longrightarrow>
                  requests s \<noteq> [] \<and> initPromise s = Some (fst (snd a)) \<and>
                  fst (snd a) = length (requests s) - 1) (awaiting s) \<and>
      list_all (\<lambda>a. list_all (\<lambda>b. snd (snd a) \<and> snd (snd b) \<longrightarrow> fst a = fst b) (awaiting s))
        (awaiting s))"

text \<open>
  Three calls before the request succeeds, and a fourth after; two calls whose request
  fails, a call between the failure and the resumptions, and a retry that succeeds.
\<close>

definition threeCallers :: "event list" where
  "threeCallers = [Call, Call, Call, UpgradeNeeded 0, Success 0 7, Call,
                   Resume 1, Resume 0, Resume 2]"

definition failThenRetry :: "event list" where
  "failThenRetry = [Call, Call, Failure 0, Call, Resume 1, Resume 0, Resume 2,
                    Call, Success 1 9, Resume 3]"

section \<open>Notions for the properties of migration and import\<close>

text \<open>
  The two databases have the same stores, in the same order, and the same contents in
  every store but the named one.
\<close>

definition sameExcept :: "string \<Rightarrow> database \<Rightarrow> database \<Rightarrow> bool" where
  "sameExcept storeName d d' =
     (map fst d' = map fst d \<and>
      list_all (\<lambda>n. n = storeName \<or> map_of d' n = map_of d n) (map fst d))"

text \<open>
  A value that refers, if to anything, to a cell from \<open>lo\<close> up to below \<open>hi\<close>; a cell all of
  whose values do.
\<close>

definition refBetween :: "nat \<Rightarrow> nat \<Rightarrow> jsval \<Rightarrow> bool" where
  "refBetween lo hi v = (case v of VRef a \<Rightarrow> lo \<le> a \<and> a < hi | _ \<Rightarrow> True)"

definition cellRefs :: "nat \<Rightarrow> nat \<Rightarrow> cell \<Rightarrow> bool" where
  "cellRefs lo hi c =
     (case c of
        Obj fs \<Rightarrow> list_all (\<lambda>kv. refBetween lo hi (snd kv)) fs
      | Arr xs \<Rightarrow> list_all (refBetween lo hi) xs)"

text \<open>
  The property \<open>k\<close> of an object is missing or holds a falsy value: \<^verbatim>\<open>!data.k\<close>.
\<close>

definition falsyOrAbsent :: "(string \<times> jsval) list \<Rightarrow> string \<Rightarrow> bool" where
  "falsyOrAbsent fs k = (case map_of fs k of None \<Rightarrow> True | Some v \<Rightarrow> \<not> js_truthy v)"

text \<open>
  The property \<open>k\<close> of \<open>v\<close> is an empty array.
\<close>

definition emptyArrayAt :: "heap \<Rightarrow> jsval \<Rightarrow> string \<Rightarrow> bool" where
  "emptyArrayAt h v k =
     (case getp h v k of Inr (VRef a) \<Rightarrow> a < length h \<and> h ! a = Arr [] | _ \<Rightarrow> False)"

text \<open>
  What a step of the pipeline may change: it may add cells and change the object at
  \<open>r\<close>, of which it leaves every property outside \<open>K\<close> as it was.
\<close>

definition rootFrame :: "nat \<Rightarrow> string set \<Rightarrow> heap \<Rightarrow> heap \<Rightarrow> bool" where
  "rootFrame r K h h' =
     (length h \<le> length h' \<and> (\<forall>i<length h. i \<noteq> r \<longrightarrow> h' ! i = h ! i) \<and>
      (\<exists>g g'. h ! r = Obj g \<and> h' ! r = Obj g' \<and> (\<forall>k. k \<notin> K \<longrightarrow> map_of g' k = map_of g k)))"

section \<open>Example states\<close>


text \<open>A file record as \<^verbatim>\<open>storeFile\<close> writes it, for a three-byte image.\<close>

definition fileRecord :: "string \<Rightarrow> tree" where
  "fileRecord fileId =
     TObj [(''fileId'', TStr fileId), (''blob'', TBlob ''image/png'' 3), (''type'', TStr ''image/png''),
           (''size'', TNum 3), (''createdAt'', TStr ''2025-01-01T00:00:00.000Z''), (''metadata'', TObj [])]"

text \<open>The fresh database after the files \<^verbatim>\<open>a\<close> and \<^verbatim>\<open>b\<close> were stored.\<close>

definition managerAB :: manager where
  "managerAB =
     (case put (db freshManager) ''fileStorage'' (fileRecord ''a'') of
        Inl e \<Rightarrow> freshManager
      | Inr r1 \<Rightarrow>
          (case put (snd r1) ''fileStorage'' (fileRecord ''b'') of
             Inl e \<Rightarrow> freshManager
           | Inr r2 \<Rightarrow> freshManager\<lparr>db := snd r2\<rparr>))"



text \<open>A configuration with an API key, and the fresh database after it was saved.\<close>

definition configSecret :: tree where
  "configSecret =
     TObj [(''url'', TStr ''https://api.example.com/v1''), (''key'', TStr ''sk-secret''),
           (''configName'', TStr ''main'')]"

definition databaseWithConfig :: database where
  "databaseWithConfig =
     (case saveConfig (createStores []) configSecret 1000 ''config_1'' of
        Inl e \<Rightarrow> []
      | Inr r \<Rightarrow> snd r)"

text \<open>
  A conversion of strings and objects to numbers under which none is a number.
\<close>

definition noNumber :: "heap \<Rightarrow> jsval \<Rightarrow> int option" where
  "noNumber h v = None"

text \<open>
  The snapshot \<^verbatim>\<open>{_metadata: {version: 4}, contacts: [{id: 'c1'}]}\<close> in memory, at address 3.
\<close>

definition heap4 :: heap where
  "heap4 = [Obj [(''version'', VNum 4)],
            Obj [(''id'', VStr ''c1'')],
            Arr [VRef 1],
            Obj [(''_metadata'', VRef 0), (''contacts'', VRef 2)]]"

text \<open>
  The snapshot \<^verbatim>\<open>{_metadata: {version: 4}, themeConfig: [{type: 'dark'}]}\<close>, at address 3.
\<close>

definition heapTheme :: heap where
  "heapTheme = [Obj [(''version'', VNum 4)],
                Obj [(''type'', VStr ''dark'')],
                Arr [VRef 1],
                Obj [(''_metadata'', VRef 0), (''themeConfig'', VRef 2)]]"

text \<open>
  The snapshot \<^verbatim>\<open>{_metadata: {version: 13}, moments: [{id: 7, imageFileIds: ['f1', null,
  'f2']}]}\<close>, at address 4.
\<close>

definition heap13 :: heap where
  "heap13 = [Obj [(''version'', VNum 13)],
             Arr [VStr ''f1'', VNull, VStr ''f2''],
             Obj [(''id'', VNum 7), (''imageFileIds'', VRef 1)],
             Arr [VRef 2],
             Obj [(''_metadata'', VRef 0), (''moments'', VRef 3)]]"

text \<open>
  A snapshot of the current version with two contacts, at address 4; its array of
  contacts is at address 3.
\<close>

definition heapContacts :: heap where
  "heapContacts = [Obj [(''version'', VNum 14)],
                   Obj [(''id'', VStr ''c1''), (''name'', VStr ''Ann'')],
                   Obj [(''id'', VStr ''c2''), (''name'', VStr ''Bob'')],
                   Arr [VRef 1, VRef 2],
                   Obj [(''_metadata'', VRef 0), (''contacts'', VRef 3)]]"


text \<open>
  The default options of \<^verbatim>\<open>importDatabase\<close>.
\<close>

definition defaultOptions :: import_options where
  "defaultOptions =
     \<lparr>overwrite = False, validateVersion = True, importStores = None, enableMigration = True\<rparr>"

text \<open>
  The snapshot and the heap of a successful migration.
\<close>

definition resultValue :: "(error + (jsval \<times> heap)) \<Rightarrow> jsval" where
  "resultValue r = (case r of Inl e \<Rightarrow> VUndef | Inr x \<Rightarrow> fst x)"

definition resultHeap :: "(error + (jsval \<times> heap)) \<Rightarrow> heap" where
  "resultHeap r = (case r of Inl e \<Rightarrow> [] | Inr x \<Rightarrow> snd x)"

text \<open>
  The migration of the snapshot with a theme, against a fresh database.
\<close>

definition migratedTheme :: "error + (jsval \<times> heap)" where
  "migratedTheme = fst (migrateData noNumber ''T'' heapTheme (createStores []) (VRef 3))"

text \<open>
  The migration of the version 13 snapshot, against a fresh database.
\<close>

definition migrated13 :: "(error + (jsval \<times> heap)) \<times> database" where
  "migrated13 = migrateData noNumber ''T'' heap13 (createStores []) (VRef 4)"

text \<open>
  The fresh database after the snapshot with two contacts was imported once.
\<close>

definition afterFirstImport :: database where
  "afterFirstImport =
     snd (snd (importDatabase noNumber ''T'' heapContacts (createStores []) (VRef 4) defaultOptions))"

section \<open>Properties of the file operations\<close>




lemma delete_no_string: "interpolate k = Inl e \<Longrightarrow> delete d n k = Inl e"
  by (simp add: delete_def)







text \<open>
  C9 as the specification states it fails: it is stated for every id, and the keyed
  delete raises DataError for an id that is no valid key of the engine, such as
  \<^verbatim>\<open>null\<close> and \<^verbatim>\<open>undefined\<close>.
\<close>

theorem deleteFile_invalid_key_counterexample:
  "deleteFile freshManager TNull = Inl DataError \<and>
   deleteFile freshManager TUndef = Inl DataError"
  by code_simp



text \<open>
  C8 as the specification states it fails: the id \<^verbatim>\<open>{toString: 5}\<close> has no string, so the
  description of the read raises a TypeError, the log line of the \<^verbatim>\<open>catch\<close> raises it
  again, and the call is rejected.
\<close>

theorem createFileURL_no_string_counterexample:
  "createFileURL (\<lambda>b. Inr ''blob:new'') freshManager (TObj [(''toString'', TNum 5)]) = Inl TypeError"
  by code_simp

text \<open>So it is for every id that has no string and no handle in the cache.\<close>

lemma createFileURL_no_string:
  assumes "interpolate fileId = Inl e" "map_of (urlCache m) fileId = None"
  shows "createFileURL createObjectURL m fileId = Inl e"
  using assms by (simp add: createFileURL_def createFileURL_try_def getFile_def get_def)

section \<open>Properties of the export\<close>

lemma sanitize_strips:
  "\<not> truthy (getProp (TObj (sanitize item)) ''apiKey'') \<and>
   \<not> truthy (getProp (TObj (sanitize item)) ''password'')"
  by (auto simp: sanitize_def Let_def delete_conv' split: option.splits)

lemma sanitize_keeps:
  "k \<noteq> ''apiKey'' \<Longrightarrow> k \<noteq> ''password'' \<Longrightarrow> map_of (sanitize item) k = map_of item k"
  by (simp add: sanitize_def Let_def delete_conv')

text \<open>
  C6 fails on the program. \<^verbatim>\<open>saveConfig\<close> stores the API key of a configuration in the
  field \<^verbatim>\<open>key\<close> and in \<^verbatim>\<open>apiKeys\<close>; the redaction deletes \<^verbatim>\<open>apiKey\<close> and \<^verbatim>\<open>password\<close>
  only. After the configuration \<open>configSecret\<close> was saved into a fresh database, both
  \<^verbatim>\<open>exportStore\<close> and \<^verbatim>\<open>exportDatabase\<close> give the record out with the key in it.
\<close>

theorem exportStore_leaks_saved_key:
  "exportStore databaseWithConfig ''apiSettings'' =
     Inr [TObj [(''id'', TStr ''config_1''),
                (''url'', TStr ''https://api.example.com/v1''),
                (''key'', TStr ''sk-secret''),
                (''contextMessageCount'', TNum 10),
                (''timeout'', TNum 60),
                (''apiKeys'', TArr [TObj [(''key'', TStr ''sk-secret''), (''name'', TStr mainKeyName),
                                          (''enabled'', TBool True), (''index'', TNum 0)]]),
                (''configName'', TStr ''main''),
                (''isDefault'', TBool False),
                (''createdAt'', TNum 1000),
                (''updatedAt'', TNum 1000)]] \<and>
   map_of (case exportDatabase databaseWithConfig
                  \<lparr>exportStores = None, includeMetadata = True\<rparr> ''2025-01-01T00:00:00.000Z'' of
             Inl e \<Rightarrow> []
           | Inr exportData \<Rightarrow> exportData) ''apiSettings''
     = Some (TArr (case exportStore databaseWithConfig ''apiSettings'' of
                     Inl e \<Rightarrow> []
                   | Inr records \<Rightarrow> records))"
  by code_simp

section \<open>Properties of the batch clean-up\<close>








lemma cleanupTry_no_string:
  assumes "interpolate k = Inl e"
  shows "cleanupTry m k = (m, Some e)"
  using assms by (simp add: cleanupTry_def deleteFile_def delete_def)






text \<open>
  An id that has no string ends the loop: the warning of the inner \<^verbatim>\<open>catch\<close> raises, the
  call is rejected with that TypeError, and the ids after it are not processed.
\<close>

lemma cleanupLoop_rejects:
  assumes "list_all (\<lambda>i. interpolate i = Inr ()) ids1" "interpolate bad = Inl e"
  shows "snd (cleanupLoop m (ids1 @ bad # ids2) n es) = Inl e"
  using assms(1)
proof (induction ids1 arbitrary: m n es)
  case Nil
  then show ?case using assms(2) by (simp add: cleanupTry_no_string)
next
  case (Cons k ids)
  obtain m1 r where t: "cleanupTry m k = (m1, r)" by (cases "cleanupTry m k") auto
  from Cons.prems have p: "interpolate k = Inr ()" "list_all (\<lambda>i. interpolate i = Inr ()) ids"
    by simp_all
  show ?case
  proof (cases r)
    case None
    with t p Cons.IH[OF p(2), of m1 "n + 1" es] show ?thesis by auto
  next
    case (Some e')
    with t p Cons.IH[OF p(2), of m1 n "es @ [(k, e')]"] show ?thesis by auto
  qed
qed

lemma cleanupSelectedImages_rejects:
  assumes "list_all (\<lambda>i. interpolate i = Inr ()) ids1" "interpolate bad = Inl e"
  shows "snd (cleanupSelectedImages m (TArr (ids1 @ bad # ids2))) = Inl e"
  using cleanupLoop_rejects[OF assms, of m ids2 0 "[]"]
  by (auto simp: cleanupSelectedImages_def split: prod.splits sum.splits)

lemma cleanupSelectedImages_rejects_example:
  "snd (cleanupSelectedImages managerAB (TArr [TStr ''a'', TObj [(''toString'', TNum 5)], TStr ''b'']))
     = Inl TypeError \<and>
   getFile (db (fst (cleanupSelectedImages managerAB
                       (TArr [TStr ''a'', TObj [(''toString'', TNum 5)], TStr ''b'']))))
       (TStr ''b'') = Inr (fileRecord ''b'')"
  by code_simp

section \<open>Properties of the data migration\<close>

subsection \<open>The live database\<close>

lemma bindE_Inr: "bindE x f = Inr y \<Longrightarrow> \<exists>z. x = Inr z \<and> f z = Inr y"
  by (cases x) (auto simp: bindE_def)

lemma bindE_simps [simp]: "bindE (Inl e) f = Inl e" "bindE (Inr z) f = f z"
  by (simp_all add: bindE_def)

lemma sameExcept_iff:
  "sameExcept n d d' \<longleftrightarrow>
     map fst d' = map fst d \<and> (\<forall>n'. n' \<noteq> n \<longrightarrow> map_of d' n' = map_of d n')"
proof
  assume a: "sameExcept n d d'"
  then have k: "map fst d' = map fst d" by (simp add: sameExcept_def)
  have "map_of d' n' = map_of d n'" if b: "n' \<noteq> n" for n'
  proof (cases "n' \<in> set (map fst d)")
    case True
    with a b show ?thesis by (auto simp: sameExcept_def list_all_iff)
  next
    case False
    with k have "n' \<notin> fst ` set d" "n' \<notin> fst ` set d'" by (simp_all flip: set_map)
    then have "map_of d n' = None" "map_of d' n' = None"
      by (simp_all add: map_of_eq_None_iff)
    then show ?thesis by simp
  qed
  with k show "map fst d' = map fst d \<and> (\<forall>n'. n' \<noteq> n \<longrightarrow> map_of d' n' = map_of d n')"
    by blast
next
  assume "map fst d' = map fst d \<and> (\<forall>n'. n' \<noteq> n \<longrightarrow> map_of d' n' = map_of d n')"
  then show "sameExcept n d d'" by (auto simp: sameExcept_def list_all_iff)
qed

lemma sameExcept_refl: "sameExcept n d d"
  by (simp add: sameExcept_iff)

lemma sameExcept_trans: "sameExcept n d d1 \<Longrightarrow> sameExcept n d1 d2 \<Longrightarrow> sameExcept n d d2"
  by (simp add: sameExcept_iff)

lemma map_fst_update: "map_of d n \<noteq> None \<Longrightarrow> map fst (AList.update n s d) = map fst d"
  by (induction d) auto

lemma sameExcept_update: "map_of d n \<noteq> None \<Longrightarrow> sameExcept n d (AList.update n s d)"
  by (simp add: sameExcept_iff map_fst_update update_conv')

lemma dbOperation_frame:
  "dbOperation d n f = Inr (r, d') \<Longrightarrow> sameExcept n d d'"
  by (auto simp: dbOperation_def sameExcept_update split: option.splits sum.splits)

lemma put_frame: "put d n v = Inr r \<Longrightarrow> sameExcept n d (snd r)"
  by (cases r) (auto simp: put_def dest: dbOperation_frame)

lemma setImageUsageMetadata_frame:
  "setImageUsageMetadata d now f u m = Inr (x, d') \<Longrightarrow> sameExcept ''imageUsageMetadata'' d d'"
  by (auto simp: setImageUsageMetadata_def Let_def split: if_splits sum.splits dest: put_frame)

lemma emojiStep_frame:
  "emojiStep now h data d emoji = Inr d' \<Longrightarrow> sameExcept ''imageUsageMetadata'' d d'"
  unfolding emojiStep_def
  apply (auto simp: sameExcept_refl dest!: bindE_Inr split: if_splits)
  apply (erule setImageUsageMetadata_frame)
  done

lemma emojiLoop_frame:
  "sameExcept ''imageUsageMetadata'' d (snd (emojiLoop now h data d emojis))"
proof (induction emojis arbitrary: d)
  case Nil
  then show ?case by (simp add: sameExcept_refl)
next
  case (Cons e es)
  then show ?case
    by (auto split: sum.splits intro: sameExcept_refl sameExcept_trans dest: emojiStep_frame)
qed

lemma fileIdLoop_frame:
  "sameExcept ''imageUsageMetadata'' d (snd (fileIdLoop now h moment i d ids))"
proof (induction ids arbitrary: d i)
  case Nil
  then show ?case by (simp add: sameExcept_refl)
next
  case (Cons f fs)
  show ?case
  proof (cases "bindE (getp h moment ''authorName'') (\<lambda>authorName.
             bindE (getp h moment ''timestamp'') (\<lambda>timestamp.
               bindE (getp h moment ''id'') (\<lambda>momentId.
                 bindE (reifyE h f) (\<lambda>fileIdT.
                   bindE (reifyE h authorName) (\<lambda>authorNameT.
                     bindE (reifyE h timestamp) (\<lambda>timestampT.
                       bindE (reifyE h momentId) (\<lambda>momentIdT.
                         setImageUsageMetadata d now fileIdT (TStr ''general'')
                           (TObj [(''category'', TStr ''moments''),
                                  (''tags'', TArr [TStr momentsTag,
                                                   js_or authorNameT (TStr unknownAuthor)]),
                                  (''createdAt'', js_or timestampT (TStr now)),
                                  (''fileName'',
                                   TStr (''moment_'' @ toStr momentIdT @ ''_'' @ show_nat (i + 1)
                                           @ ''.jpg''))]))))))))")
    case (Inl e)
    then show ?thesis by (simp add: sameExcept_refl)
  next
    case (Inr r)
    then have "sameExcept ''imageUsageMetadata'' d (snd r)"
      by (cases r) (auto dest!: bindE_Inr intro: setImageUsageMetadata_frame)
    with Inr Cons.IH[of "snd r" "i + 1"] show ?thesis
      by (auto intro: sameExcept_trans)
  qed
qed

lemma momentLoop_frame:
  "sameExcept ''imageUsageMetadata'' d (snd (momentLoop now h d moments))"
proof (induction moments arbitrary: d)
  case Nil
  then show ?case by (simp add: sameExcept_refl)
next
  case (Cons m ms)
  show ?case
  proof (cases "getp h m ''imageFileIds''")
    case (Inl e)
    then show ?thesis by (simp add: sameExcept_refl)
  next
    case (Inr ids)
    show ?thesis
    proof (cases "js_truthy ids \<and> isArray h ids")
      case False
      with Inr Cons.IH[of d] show ?thesis by auto
    next
      case True
      obtain r d1 where f: "fileIdLoop now h m 0 d (elements h ids) = (r, d1)"
        by (cases "fileIdLoop now h m 0 d (elements h ids)") auto
      from fileIdLoop_frame[of d now h m 0 "elements h ids"] f
      have s: "sameExcept ''imageUsageMetadata'' d d1" by simp
      show ?thesis using Inr True f s Cons.IH[of d1]
        by (cases r) (auto intro: sameExcept_trans)
    qed
  qed
qed

lemma migrateFrom13To14_frame:
  "sameExcept ''imageUsageMetadata'' d (snd (migrateFrom13To14 now h d data))"
proof (cases "getp h data ''emojis''")
  case (Inl e)
  then show ?thesis by (simp add: migrateFrom13To14_def sameExcept_refl)
next
  case (Inr emojis)
  obtain r1 d1 where e: "(if js_truthy emojis \<and> isArray h emojis
                 then emojiLoop now h data d (elements h emojis)
                 else (None, d)) = (r1, d1)"
    by (cases "(if js_truthy emojis \<and> isArray h emojis
                 then emojiLoop now h data d (elements h emojis)
                 else (None, d))") auto
  have s1: "sameExcept ''imageUsageMetadata'' d d1"
    using e emojiLoop_frame[of d now h data "elements h emojis"]
    by (auto split: if_splits intro: sameExcept_refl)
  show ?thesis
  proof (cases r1)
    case (Some err)
    with Inr e s1 show ?thesis by (simp add: migrateFrom13To14_def)
  next
    case None
    show ?thesis
    proof (cases "getp h data ''moments''")
      case (Inl e2)
      with Inr e s1 None show ?thesis by (simp add: migrateFrom13To14_def)
    next
      case (Inr moments)
      with \<open>getp h data ''emojis'' = Inr emojis\<close> e s1 None
           momentLoop_frame[of d1 now h "elements h moments"]
      show ?thesis
        by (auto simp: migrateFrom13To14_def intro: sameExcept_trans)
    qed
  qed
qed

subsection \<open>The input snapshot\<close>

lemma refBetween_simps [simp]:
  "refBetween lo hi VUndef" "refBetween lo hi VNull" "refBetween lo hi (VBool b)"
  "refBetween lo hi (VNum n)" "refBetween lo hi (VStr s)"
  "refBetween lo hi (VRef a) = (lo \<le> a \<and> a < hi)"
  by (simp_all add: refBetween_def)

lemma refBetween_mono: "refBetween lo hi v \<Longrightarrow> lo' \<le> lo \<Longrightarrow> hi \<le> hi' \<Longrightarrow> refBetween lo' hi' v"
  by (cases v) auto

lemma alloc_extends:
  "alloc t h = (v, h') \<Longrightarrow> (\<exists>ys. h' = h @ ys) \<and> refBetween (length h) (length h') v"
  "allocElements ts h = (vs, h') \<Longrightarrow>
     (\<exists>ys. h' = h @ ys) \<and> list_all (refBetween (length h) (length h')) vs"
  "allocFields fs h = (gs, h') \<Longrightarrow>
     (\<exists>ys. h' = h @ ys) \<and> list_all (\<lambda>kv. refBetween (length h) (length h') (snd kv)) gs \<and>
     map fst gs = map fst fs"
proof (induction t h and ts h and fs h arbitrary: v h' and vs h' and gs h'
       rule: alloc_allocElements_allocFields.induct)
  case (8 xs h)
  then show ?case by (auto split: prod.splits)
next
  case (9 fs h)
  then show ?case by (auto split: prod.splits)
next
  case (11 x xs h)
  obtain v1 h1 where a: "alloc x h = (v1, h1)" by (cases "alloc x h") auto
  obtain vs2 h2 where b: "allocElements xs h1 = (vs2, h2)" by (cases "allocElements xs h1") auto
  from "11.IH"(1)[OF a] obtain ys where 1: "h1 = h @ ys" "refBetween (length h) (length h1) v1"
    by blast
  from "11.IH"(2)[OF a[symmetric] b] obtain zs where
    2: "h2 = h1 @ zs" "list_all (refBetween (length h1) (length h2)) vs2" by blast
  from "11.prems" a b have r: "vs = v1 # vs2" "h' = h2" by auto
  show ?case using 1 2 r
    by (auto simp: list_all_iff intro: refBetween_mono)
next
  case (13 kv fs h)
  obtain v1 h1 where a: "alloc (snd kv) h = (v1, h1)" by (cases "alloc (snd kv) h") auto
  obtain gs2 h2 where b: "allocFields fs h1 = (gs2, h2)" by (cases "allocFields fs h1") auto
  from "13.IH"(1)[OF a] obtain ys where 1: "h1 = h @ ys" "refBetween (length h) (length h1) v1"
    by blast
  from "13.IH"(2)[OF a[symmetric] b] obtain zs where
    2: "h2 = h1 @ zs" "list_all (\<lambda>kv. refBetween (length h1) (length h2) (snd kv)) gs2"
       "map fst gs2 = map fst fs" by blast
  from "13.prems" a b have r: "gs = (fst kv, v1) # gs2" "h' = h2" by auto
  show ?case using 1 2 r
    by (auto simp: list_all_iff intro: refBetween_mono)
qed auto

lemma alloc_root:
  assumes "alloc t h = (v, h')"
  shows "(\<exists>ys. h' = h @ ys) \<and>
         (case v of VRef r \<Rightarrow> length h \<le> r \<and> r < length h' \<and> cellRefs (length h) r (h' ! r)
                  | _ \<Rightarrow> True)"
proof (cases t)
  case (TArr xs)
  obtain vs h1 where a: "allocElements xs h = (vs, h1)" by (cases "allocElements xs h") auto
  from alloc_extends(2)[OF a] assms TArr a show ?thesis
    by (auto simp: cellRefs_def)
next
  case (TObj fs)
  obtain gs h1 where a: "allocFields fs h = (gs, h1)" by (cases "allocFields fs h") auto
  from alloc_extends(3)[OF a] assms TObj a show ?thesis
    by (auto simp: cellRefs_def)
qed (use assms in \<open>auto simp: cellRefs_def\<close>)

lemma jsonCopy_root:
  assumes "jsonCopy h v = Inr (c, h1)"
  shows "(\<exists>ys. h1 = h @ ys) \<and>
         (case c of VRef r \<Rightarrow> length h \<le> r \<and> r < length h1 \<and> cellRefs (length h) r (h1 ! r)
                  | _ \<Rightarrow> True)"
  using assms alloc_root
  by (auto simp: jsonCopy_def split: option.splits)

lemma setp_Inr:
  "setp h v k x = Inr h' \<Longrightarrow>
     \<exists>a fs. v = VRef a \<and> a < length h \<and> h ! a = Obj fs \<and> h' = h[a := Obj (AList.update k x fs)]"
  by (auto simp: setp_def split: jsval.splits if_splits cell.splits)

lemma delp_Inr:
  "delp h v k = Inr h' \<Longrightarrow>
     h' = h \<or> (\<exists>a fs. v = VRef a \<and> a < length h \<and> h ! a = Obj fs \<and>
                       h' = h[a := Obj (AList.delete k fs)])"
  by (auto simp: delp_def split: jsval.splits if_splits cell.splits)

lemma indexed_cases: "indexed i xs k = VUndef \<or> indexed i xs k \<in> set xs"
  by (induction xs arbitrary: i) auto

lemma getp_cellRefs:
  assumes "r < length h" "cellRefs lo hi (h ! r)" "getp h (VRef r) k = Inr v"
  shows "refBetween lo hi v"
proof (cases "h ! r")
  case (Obj fs)
  with assms show ?thesis
    by (auto simp: getp_def cellRefs_def list_all_iff split: option.splits dest!: map_of_SomeD)
next
  case (Arr xs)
  with assms indexed_cases[of 0 xs k] show ?thesis
    by (auto simp: getp_def cellRefs_def list_all_iff split: if_splits)
qed

lemma setMetadata_keeps:
  assumes "setMetadata h (VRef r) k x = Inr h'" "r < length h" "cellRefs n r (h ! r)"
  shows "length h' = length h \<and> take n h' = take n h \<and> h' ! r = h ! r"
proof -
  from assms(1) obtain m where m: "getp h (VRef r) ''_metadata'' = Inr m" "setp h m k x = Inr h'"
    by (auto simp: setMetadata_def dest!: bindE_Inr)
  from getp_cellRefs[OF assms(2,3) m(1)] have b: "refBetween n r m" .
  from setp_Inr[OF m(2)] obtain a fs where
    a: "m = VRef a" "a < length h" "h' = h[a := Obj (AList.update k x fs)]" by blast
  with b show ?thesis by auto
qed

lemma setMetadata_root:
  assumes "setMetadata h c k x = Inr h'"
  shows "\<exists>r. c = VRef r"
  using assms
  by (cases c) (auto simp: setMetadata_def getp_def dest!: bindE_Inr setp_Inr)

lemma initCollection_keeps:
  assumes "initCollection h (VRef r) k = Inr h'" "n \<le> r" "n \<le> length h"
  shows "length h \<le> length h' \<and> take n h' = take n h"
  using assms
  by (auto simp: initCollection_def dest!: bindE_Inr setp_Inr split: if_splits)

lemma initCollection2_keeps:
  assumes "bindE (initCollection h (VRef r) k1) (\<lambda>h1. initCollection h1 (VRef r) k2) = Inr h'"
      and "n \<le> r" "n \<le> length h"
  shows "length h \<le> length h' \<and> take n h' = take n h"
proof -
  from assms(1) obtain h1 where
    1: "initCollection h (VRef r) k1 = Inr h1" and 2: "initCollection h1 (VRef r) k2 = Inr h'"
    by (auto dest!: bindE_Inr)
  from initCollection_keeps[OF 1 assms(2,3)] have a: "length h \<le> length h1" "take n h1 = take n h"
    by auto
  with assms(3) have "n \<le> length h1" by simp
  from initCollection_keeps[OF 2 assms(2) this] a show ?thesis by auto
qed

lemma steps_keep:
  assumes "n \<le> r" "n \<le> length h"
  shows "migrateFrom4To5 h (VRef r) = Inr h' \<Longrightarrow> length h \<le> length h' \<and> take n h' = take n h"
    and "migrateFrom7To8 h (VRef r) = Inr h' \<Longrightarrow> length h \<le> length h' \<and> take n h' = take n h"
    and "migrateFrom9To10 h (VRef r) = Inr h' \<Longrightarrow> length h \<le> length h' \<and> take n h' = take n h"
    and "migrateFrom11To12 h (VRef r) = Inr h' \<Longrightarrow> length h \<le> length h' \<and> take n h' = take n h"
proof -
  show "migrateFrom4To5 h (VRef r) = Inr h' \<Longrightarrow> length h \<le> length h' \<and> take n h' = take n h"
    unfolding migrateFrom4To5_def using initCollection2_keeps[OF _ assms] by blast
  show "migrateFrom7To8 h (VRef r) = Inr h' \<Longrightarrow> length h \<le> length h' \<and> take n h' = take n h"
    unfolding migrateFrom7To8_def using initCollection2_keeps[OF _ assms] by blast
  show "migrateFrom9To10 h (VRef r) = Inr h' \<Longrightarrow> length h \<le> length h' \<and> take n h' = take n h"
    unfolding migrateFrom9To10_def using initCollection_keeps[OF _ assms] by blast
  show "migrateFrom11To12 h (VRef r) = Inr h' \<Longrightarrow> length h \<le> length h' \<and> take n h' = take n h"
    unfolding migrateFrom11To12_def using assms
    by (auto dest!: bindE_Inr delp_Inr split: if_splits)
qed

lemma guarded_keeps:
  assumes "guarded g step (VRef r) h = Inr h'"
      and "\<And>h'. step h (VRef r) = Inr h' \<Longrightarrow> length h \<le> length h' \<and> take n h' = take n h"
  shows "length h \<le> length h' \<and> take n h' = take n h"
  using assms by (auto simp: guarded_def split: if_splits)

lemma trivial_steps:
  "migrateFrom5To6 h c = Inr h" "migrateFrom6To7 h c = Inr h" "migrateFrom8To9 h c = Inr h"
  "migrateFrom10To11 h c = Inr h" "migrateFrom12To13 h c = Inr h"
  by (simp_all add: migrateFrom5To6_def migrateFrom6To7_def migrateFrom8To9_def
                    migrateFrom10To11_def migrateFrom12To13_def)

lemma guarded_trivial:
  "guarded g migrateFrom5To6 c h = Inr h" "guarded g migrateFrom6To7 c h = Inr h"
  "guarded g migrateFrom8To9 c h = Inr h" "guarded g migrateFrom10To11 c h = Inr h"
  "guarded g migrateFrom12To13 c h = Inr h"
  by (simp_all add: guarded_def trivial_steps)

lemma migrateCopy_keeps:
  assumes "migrateCopy toNumber now h importData fromVersion = Inr (v, h')"
  shows "length h \<le> length h' \<and> take (length h) h' = h"
proof -
  let ?n = "length h"
  from assms obtain c h0 h1 h2 h3 h4 h7 h9 where
    c: "jsonCopy h importData = Inr (c, h0)" and
    1: "setMetadata h0 c ''version'' (VNum 14) = Inr h1" and
    2: "setMetadata h1 c ''migrationTime'' (VStr now) = Inr h2" and
    3: "setMetadata h2 c ''originalVersion'' fromVersion = Inr h3" and
    4: "guarded (js_le toNumber h3 fromVersion 4) migrateFrom4To5 c h3 = Inr h4" and
    7: "guarded (js_le toNumber h4 fromVersion 7) migrateFrom7To8 c h4 = Inr h7" and
    9: "guarded (js_le toNumber h7 fromVersion 9) migrateFrom9To10 c h7 = Inr h9" and
    11: "guarded (js_le toNumber h9 fromVersion 11) migrateFrom11To12 c h9 = Inr h'" and
    v: "v = c"
    unfolding migrateCopy_def Let_def
    by (auto dest!: bindE_Inr simp: guarded_trivial)
  from setMetadata_root[OF 1] obtain r where r: "c = VRef r" by blast
  from jsonCopy_root[OF c] r obtain ys where
    h0: "h0 = h @ ys" "?n \<le> r" "r < length h0" "cellRefs ?n r (h0 ! r)" by auto
  from setMetadata_keeps[OF 1[unfolded r] h0(3,4)]
  have k1: "length h1 = length h0" "take ?n h1 = take ?n h0" "h1 ! r = h0 ! r" by auto
  from setMetadata_keeps[OF 2[unfolded r], of ?n] k1 h0
  have k2: "length h2 = length h0" "take ?n h2 = take ?n h0" "h2 ! r = h0 ! r" by auto
  from setMetadata_keeps[OF 3[unfolded r], of ?n] k2 h0
  have k3: "length h3 = length h0" "take ?n h3 = take ?n h0" by auto
  have l3: "?n \<le> length h3" using k3 h0 by simp
  from guarded_keeps[OF 4[unfolded r], of ?n] steps_keep(1)[OF h0(2) l3]
  have k4: "length h3 \<le> length h4" "take ?n h4 = take ?n h3" by auto
  have l4: "?n \<le> length h4" using k4 l3 by simp
  from guarded_keeps[OF 7[unfolded r], of ?n] steps_keep(2)[OF h0(2) l4]
  have k7: "length h4 \<le> length h7" "take ?n h7 = take ?n h4" by auto
  have l7: "?n \<le> length h7" using k7 l4 by simp
  from guarded_keeps[OF 9[unfolded r], of ?n] steps_keep(3)[OF h0(2) l7]
  have k9: "length h7 \<le> length h9" "take ?n h9 = take ?n h7" by auto
  have l9: "?n \<le> length h9" using k9 l7 by simp
  from guarded_keeps[OF 11[unfolded r], of ?n] steps_keep(4)[OF h0(2) l9]
  have k11: "length h9 \<le> length h'" "take ?n h' = take ?n h9" by auto
  show ?thesis using k1 k2 k3 k4 k7 k9 k11 h0 l9 by simp
qed

text \<open>
  C2, as the program has it. For every snapshot, conversion of numbers, time stamp, heap
  and live database: \<^verbatim>\<open>migrateData\<close> leaves every store of the live database other than
  \<^verbatim>\<open>imageUsageMetadata\<close> as it was (the step 13 to 14 upserts usage records into that
  store); when it raises, it has left the whole database as it was; it leaves every
  cell of the heap it was given as it was, working on new cells only; and a failure of
  the back-fill is not a failure of the migration, which returns the migrated copy
  whenever the part in memory succeeds.
\<close>

theorem migrateData_live_database:
  "sameExcept ''imageUsageMetadata'' d (snd (migrateData toNumber now h d importData)) \<and>
   (\<forall>e. fst (migrateData toNumber now h d importData) = Inl e \<longrightarrow>
        snd (migrateData toNumber now h d importData) = d) \<and>
   (\<forall>c h'. fst (migrateData toNumber now h d importData) = Inr (c, h') \<longrightarrow>
        length h \<le> length h' \<and> take (length h) h' = h) \<and>
   (\<forall>fromVersion c h'. migrateInMemory toNumber now h importData = Inr (fromVersion, c, h') \<longrightarrow>
        fst (migrateData toNumber now h d importData) = Inr (c, h'))"
proof (cases "migrateInMemory toNumber now h importData")
  case (Inl e)
  then show ?thesis by (simp add: migrateData_def sameExcept_refl)
next
  case (Inr x)
  obtain fromVersion c h' where x: "x = (fromVersion, c, h')" by (cases x) auto
  from Inr x obtain metadata where
    "migrateCopy toNumber now h importData fromVersion = Inr (c, h')"
    by (auto simp: migrateInMemory_def dest!: bindE_Inr)
  from migrateCopy_keeps[OF this] have k: "length h \<le> length h'" "take (length h) h' = h" by auto
  have r: "fst (migrateData toNumber now h d importData) = Inr (c, h')"
    using Inr x by (simp add: migrateData_def)
  have s: "sameExcept ''imageUsageMetadata'' d (snd (migrateData toNumber now h d importData))"
    using Inr x migrateFrom13To14_frame[of d now h' c]
    by (simp add: migrateData_def sameExcept_refl)
  show ?thesis using Inr x k r s by simp
qed

theorem migrateData_live_database_witness:
  "fst migrated13 =
     Inr (VRef 9,
          heap13 @
          [Obj [(''version'', VNum 14), (''migrationTime'', VStr ''T''), (''originalVersion'', VNum 13)],
           Arr [VStr ''f1'', VNull, VStr ''f2''],
           Obj [(''id'', VNum 7), (''imageFileIds'', VRef 6)],
           Arr [VRef 7],
           Obj [(''_metadata'', VRef 5), (''moments'', VRef 8)]]) \<and>
   fst (migrateFrom13To14 ''T'' (resultHeap (fst migrated13)) (createStores [])
          (resultValue (fst migrated13))) = Some DataError \<and>
   sameExcept ''imageUsageMetadata'' (createStores []) (snd migrated13) \<and>
   map_of (snd migrated13) ''moments'' = map_of (createStores []) ''moments''"
proof -
  have 1: "migrateInMemory noNumber ''T'' heap13 (VRef 4) =
             Inr (VNum 13, VRef 9,
          heap13 @
          [Obj [(''version'', VNum 14), (''migrationTime'', VStr ''T''), (''originalVersion'', VNum 13)],
           Arr [VStr ''f1'', VNull, VStr ''f2''],
           Obj [(''id'', VNum 7), (''imageFileIds'', VRef 6)],
           Arr [VRef 7],
           Obj [(''_metadata'', VRef 5), (''moments'', VRef 8)]])"
    by code_simp
  have 2: "fst (migrateFrom13To14 ''T'' (resultHeap (fst migrated13)) (createStores [])
          (resultValue (fst migrated13))) = Some DataError"
    by code_simp
  have 3: "map_of (snd migrated13) ''moments'' = map_of (createStores []) ''moments''"
    by code_simp
  from migrateData_live_database[of "createStores []" noNumber "''T''" heap13 "VRef 4"] 1 2 3
  show ?thesis by (simp add: migrated13_def)
qed

text \<open>
  C2 as the specification states it fails: migrating the version 13 snapshot with one
  moment writes a usage record for \<^verbatim>\<open>f1\<close> into the live database. (The id \<^verbatim>\<open>null\<close> then
  fails, which ends the back-fill: \<^verbatim>\<open>f2\<close> gets no record.)
\<close>

theorem migrateData_live_database_counterexample:
  "get (createStores []) ''imageUsageMetadata'' (TStr ''f1'') = Inr TUndef \<and>
   get (snd migrated13) ''imageUsageMetadata'' (TStr ''f1'')
     = Inr (TObj [(''fileId'', TStr ''f1''),
                  (''usageType'', TStr ''general''),
                  (''createdAt'', TStr ''T''),
                  (''category'', TStr ''moments''),
                  (''tags'', TArr [TStr momentsTag, TStr unknownAuthor]),
                  (''size'', TNum 0),
                  (''fileName'', TStr ''moment_7_1.jpg'')]) \<and>
   get (snd migrated13) ''imageUsageMetadata'' (TStr ''f2'') = Inr TUndef \<and>
   snd migrated13 \<noteq> createStores []"
  by code_simp

subsection \<open>The migrated copy\<close>

lemma those_map_lookup:
  "those (map (\<lambda>kv. map_option (Pair (fst kv)) (f (snd kv))) fs) = Some ft \<Longrightarrow>
     map fst ft = map fst fs \<and>
     map_of ft k = (case map_of fs k of None \<Rightarrow> None | Some v \<Rightarrow> f v)"
proof (induction fs arbitrary: ft)
  case Nil
  then show ?case by simp
next
  case (Cons kv fs)
  then show ?case
    by (cases kv) (auto split: option.splits)
qed

lemma reify_truthy: "reify n h v = Some t \<Longrightarrow> truthy t = js_truthy v"
  by (cases v; cases n) (auto split: if_splits cell.splits)

lemma jsonValue_truthy: "jsonValue t = Some j \<Longrightarrow> truthy j = truthy t"
  by (cases t) auto

lemma jsonValue_shape: "jsonValue t = Some j \<Longrightarrow> j \<noteq> TUndef \<and> j \<noteq> TFun"
  by (cases t) auto

lemma alloc_truthy:
  "alloc t h = (v, h') \<Longrightarrow> t \<noteq> TUndef \<Longrightarrow> t \<noteq> TFun \<Longrightarrow> js_truthy v = truthy t"
  by (cases t) (auto split: prod.splits)

lemma jsonFields_keys: "set (map fst (jsonFields ft)) \<subseteq> set (map fst ft)"
  by (induction ft) (auto split: option.splits)

lemma jsonFields_lookup:
  "distinct (map fst ft) \<Longrightarrow>
     map_of (jsonFields ft) k = (case map_of ft k of None \<Rightarrow> None | Some v \<Rightarrow> jsonValue v)"
proof (induction ft)
  case Nil
  then show ?case by simp
next
  case (Cons kv ft)
  obtain k0 v0 where kv: "kv = (k0, v0)" by (cases kv)
  from Cons.prems kv have d: "k0 \<notin> set (map fst ft)" "distinct (map fst ft)" by auto
  from d(1) jsonFields_keys[of ft] have "k0 \<notin> fst ` set (jsonFields ft)" by auto
  then have n: "map_of (jsonFields ft) k0 = None" by (simp add: map_of_eq_None_iff)
  show ?case using Cons.IH[OF d(2)] kv n
    by (auto split: option.splits)
qed

lemma jsonFields_lookup_first:
  "map_of ft k = Some v \<Longrightarrow> jsonValue v = Some j \<Longrightarrow> map_of (jsonFields ft) k = Some j"
  by (induction ft) (auto split: option.splits if_splits)

lemma allocFields_lookup_None:
  "allocFields js h = (gs, h') \<Longrightarrow> map_of js k = None \<Longrightarrow> map_of gs k = None"
  using alloc_extends(3)[of js h gs h']
  by (metis map_of_eq_None_iff set_map)

lemma allocFields_lookup_Some:
  "allocFields js h = (gs, h') \<Longrightarrow> map_of js k = Some t \<Longrightarrow>
     \<exists>v ha hb. map_of gs k = Some v \<and> alloc t ha = (v, hb) \<and>
                (\<exists>p. ha = h @ p) \<and> (\<exists>q. h' = hb @ q)"
proof (induction js arbitrary: h gs h')
  case Nil
  then show ?case by simp
next
  case (Cons kv js)
  obtain v1 h1 where a: "alloc (snd kv) h = (v1, h1)" by (cases "alloc (snd kv) h") auto
  obtain gs2 h2 where b: "allocFields js h1 = (gs2, h2)" by (cases "allocFields js h1") auto
  from Cons.prems(1) a b have r: "gs = (fst kv, v1) # gs2" "h' = h2" by auto
  from alloc_extends(1)[OF a] obtain ys where ys: "h1 = h @ ys" by blast
  from alloc_extends(3)[OF b] obtain zs where zs: "h2 = h1 @ zs" by blast
  show ?case
  proof (cases "fst kv = k")
    case True
    with Cons.prems(2) have "snd kv = t" by (cases kv) auto
    with a r True zs show ?thesis
      by (intro exI[of _ v1] exI[of _ h] exI[of _ h1]) auto
  next
    case False
    with Cons.prems(2) have "map_of js k = Some t" by (cases kv) auto
    from Cons.IH[OF b this] obtain v ha hb p q where
      "map_of gs2 k = Some v" "alloc t ha = (v, hb)" "ha = h1 @ p" "h2 = hb @ q" by blast
    with r False ys show ?thesis
      by (intro exI[of _ v] exI[of _ ha] exI[of _ hb]) auto
  qed
qed

lemma alloc_TObj:
  assumes "alloc (TObj fs) ha = (v, hb)"
  shows "\<exists>gs hy. allocFields fs ha = (gs, hy) \<and> v = VRef (length hy) \<and> hb = hy @ [Obj gs] \<and>
                 length ha \<le> length hy"
proof -
  obtain gs hy where a: "allocFields fs ha = (gs, hy)" by (cases "allocFields fs ha") auto
  from alloc_extends(3)[OF a] have "length ha \<le> length hy" by auto
  with a assms show ?thesis by auto
qed

lemma reify_Obj:
  assumes "reify (Suc n) h (VRef a) = Some t" "a < length h" "h ! a = Obj fs"
  shows "\<exists>ft. t = TObj ft \<and>
              those (map (\<lambda>kv. map_option (Pair (fst kv)) (reify n h (snd kv))) fs) = Some ft"
  using assms by auto

lemma jsonCopy_snapshot:
  assumes r: "r < length h" "h ! r = Obj fs" "distinct (map fst fs)"
      and m: "map_of fs ''_metadata'' = Some (VRef m)" "m < length h" "h ! m = Obj ms"
             "map_of ms ''version'' = Some (VNum n)"
      and t: "reifyValue h (VRef r) \<noteq> None"
  shows "\<exists>r' h1 g m' gm.
           jsonCopy h (VRef r) = Inr (VRef r', h1) \<and> take (length h) h1 = h \<and>
           length h \<le> m' \<and> m' < r' \<and> r' < length h1 \<and>
           h1 ! r' = Obj g \<and> h1 ! m' = Obj gm \<and>
           map_of g ''_metadata'' = Some (VRef m') \<and> map_of gm ''version'' = Some (VNum n) \<and>
           (\<forall>k. falsyOrAbsent fs k \<longrightarrow> falsyOrAbsent g k)"
proof -
  obtain n1 where n1: "length h = Suc n1" using r(1) by (cases "length h") auto
  from t obtain tr where tr: "reify (Suc (length h)) h (VRef r) = Some tr"
    by (auto simp: reifyValue_def)
  from reify_Obj[OF tr r(1,2)] obtain ft where
    ft: "tr = TObj ft"
        "those (map (\<lambda>kv. map_option (Pair (fst kv)) (reify (length h) h (snd kv))) fs) = Some ft"
    by blast
  note lk = those_map_lookup[OF ft(2)]
  have keys: "map fst ft = map fst fs" using lk by simp
  have dft: "distinct (map fst ft)" using keys r(3) by simp
  \<comment> \<open>the metadata object as a tree\<close>
  have "map_of ft ''_metadata'' = reify (length h) h (VRef m)" using lk[of "''_metadata''"] m(1) by simp
  moreover have "map_of ft ''_metadata'' \<noteq> None"
  proof -
    from m(1) have "''_metadata'' \<in> fst ` set fs" by (metis map_of_eq_None_iff option.distinct(1))
    then have "''_metadata'' \<in> fst ` set ft" using keys by (metis set_map)
    then show ?thesis by (simp add: map_of_eq_None_iff)
  qed
  ultimately obtain tm where tm: "map_of ft ''_metadata'' = Some tm" "reify (Suc n1) h (VRef m) = Some tm"
    using n1 by auto
  from reify_Obj[OF tm(2) m(2,3)] obtain mt where
    mt: "tm = TObj mt"
        "those (map (\<lambda>kv. map_option (Pair (fst kv)) (reify n1 h (snd kv))) ms) = Some mt"
    by blast
  have ver: "map_of mt ''version'' = Some (TNum n)"
    using those_map_lookup[OF mt(2), of "''version''"] m(4) by simp
  \<comment> \<open>the JSON of the snapshot\<close>
  let ?jf = "jsonFields ft" and ?jm = "jsonFields mt"
  have j: "jsonValue tr = Some (TObj ?jf)" using ft by simp
  have jmeta: "map_of ?jf ''_metadata'' = Some (TObj ?jm)"
    using jsonFields_lookup_first[OF tm(1)] mt by simp
  have jver: "map_of ?jm ''version'' = Some (TNum n)"
    using jsonFields_lookup_first[OF ver] by simp
  \<comment> \<open>the copy\<close>
  obtain g hx where g: "allocFields ?jf h = (g, hx)" by (cases "allocFields ?jf h") auto
  from alloc_extends(3)[OF g] obtain ys where ys: "hx = h @ ys" by blast
  let ?h1 = "hx @ [Obj g]"
  have copy: "jsonCopy h (VRef r) = Inr (VRef (length hx), ?h1)"
    using tr j g by (simp add: jsonCopy_def reifyValue_def)
  from allocFields_lookup_Some[OF g jmeta] obtain v ha hb p q where
    v: "map_of g ''_metadata'' = Some v" "alloc (TObj ?jm) ha = (v, hb)" "ha = h @ p" "hx = hb @ q"
    by blast
  from alloc_TObj[OF v(2)] obtain gm hy where
    gm: "allocFields ?jm ha = (gm, hy)" "v = VRef (length hy)" "hb = hy @ [Obj gm]"
        "length ha \<le> length hy" by blast
  from allocFields_lookup_Some[OF gm(1) jver] have gver: "map_of gm ''version'' = Some (VNum n)"
    by auto
  have falsy: "falsyOrAbsent g k" if f: "falsyOrAbsent fs k" for k
  proof (cases "map_of ?jf k")
    case None
    from allocFields_lookup_None[OF g None] show ?thesis by (simp add: falsyOrAbsent_def)
  next
    case (Some jt)
    from jsonFields_lookup[OF dft, of k] Some obtain tk where
      tk: "map_of ft k = Some tk" "jsonValue tk = Some jt" by (auto split: option.splits)
    from lk[of k] tk(1) obtain x where x: "map_of fs k = Some x" "reify (length h) h x = Some tk"
      by (auto split: option.splits)
    from f x(1) have "\<not> js_truthy x" by (simp add: falsyOrAbsent_def)
    with reify_truthy[OF x(2)] jsonValue_truthy[OF tk(2)] have nt: "\<not> truthy jt" by simp
    from allocFields_lookup_Some[OF g Some] obtain w wa wb where
      w: "map_of g k = Some w" "alloc jt wa = (w, wb)" by blast
    from alloc_truthy[OF w(2)] jsonValue_shape[OF tk(2)] nt have "\<not> js_truthy w" by simp
    with w(1) show ?thesis by (simp add: falsyOrAbsent_def)
  qed
  have "take (length h) ?h1 = h" using ys by simp
  moreover have "length h \<le> length hy" using gm(4) v(3) by simp
  moreover have "length hy < length hx" using v(4) gm(3) by simp
  moreover have "?h1 ! length hx = Obj g" by simp
  moreover have "?h1 ! length hy = Obj gm" using v(4) gm(3) by (simp add: nth_append)
  ultimately show ?thesis using copy v(1) gm(2) gver falsy
    by (intro exI[of _ "length hx"] exI[of _ ?h1] exI[of _ g] exI[of _ "length hy"] exI[of _ gm])
       auto
qed

lemma getp_Obj:
  "r < length h \<Longrightarrow> h ! r = Obj g \<Longrightarrow>
     getp h (VRef r) k = Inr (case map_of g k of Some x \<Rightarrow> x | None \<Rightarrow> VUndef)"
  by (simp add: getp_def)

lemma rootFrame_trans:
  assumes "rootFrame r K1 h h1" "rootFrame r K2 h1 h2"
  shows "rootFrame r (K1 \<union> K2) h h2"
proof -
  from assms(1) obtain g g1 where
    1: "length h \<le> length h1" "\<forall>i<length h. i \<noteq> r \<longrightarrow> h1 ! i = h ! i"
       "h ! r = Obj g" "h1 ! r = Obj g1" "\<forall>k. k \<notin> K1 \<longrightarrow> map_of g1 k = map_of g k"
    unfolding rootFrame_def by blast
  from assms(2) 1(4) obtain g2 where
    2: "length h1 \<le> length h2" "\<forall>i<length h1. i \<noteq> r \<longrightarrow> h2 ! i = h1 ! i"
       "h2 ! r = Obj g2" "\<forall>k. k \<notin> K2 \<longrightarrow> map_of g2 k = map_of g1 k"
    unfolding rootFrame_def by auto
  have "\<forall>i<length h. i \<noteq> r \<longrightarrow> h2 ! i = h ! i" using 1(1,2) 2(2) by auto
  moreover have "\<forall>k. k \<notin> K1 \<union> K2 \<longrightarrow> map_of g2 k = map_of g k" using 1(5) 2(4) by auto
  ultimately show ?thesis using 1(1,3) 2(1,3) unfolding rootFrame_def by auto
qed

lemma rootFrame_mono: "rootFrame r K h h' \<Longrightarrow> K \<subseteq> K' \<Longrightarrow> rootFrame r K' h h'"
  unfolding rootFrame_def by blast

lemma rootFrame_other:
  "rootFrame r K h h' \<Longrightarrow> i < length h \<Longrightarrow> i \<noteq> r \<Longrightarrow> h' ! i = h ! i"
  unfolding rootFrame_def by blast

lemma rootFrame_root:
  "rootFrame r K h h' \<Longrightarrow> h ! r = Obj g \<Longrightarrow>
     \<exists>g'. h' ! r = Obj g' \<and> (\<forall>k. k \<notin> K \<longrightarrow> map_of g' k = map_of g k)"
  unfolding rootFrame_def by auto

lemma rootFrame_length: "rootFrame r K h h' \<Longrightarrow> length h \<le> length h'"
  unfolding rootFrame_def by blast

lemma emptyArrayAt_frame:
  assumes "emptyArrayAt h (VRef r) k" "rootFrame r K h h'" "k \<notin> K" "r < length h"
  shows "emptyArrayAt h' (VRef r) k"
proof -
  from assms(2) obtain g g' where
    g: "h ! r = Obj g" "h' ! r = Obj g'" "map_of g' k = map_of g k"
    using assms(3) unfolding rootFrame_def by blast
  from assms(1) g(1) assms(4) obtain a where
    a: "map_of g k = Some (VRef a)" "a < length h" "h ! a = Arr []"
    by (auto simp: emptyArrayAt_def getp_Obj split: option.splits jsval.splits)
  from a g(1) have "a \<noteq> r" by auto
  with rootFrame_other[OF assms(2) a(2)] a(3) have "h' ! a = Arr []" by simp
  moreover have "a < length h'" "r < length h'"
    using a(2) assms(4) rootFrame_length[OF assms(2)] by auto
  ultimately show ?thesis using g a by (simp add: emptyArrayAt_def getp_Obj)
qed

lemma falsyOrAbsent_frame:
  assumes "rootFrame r K h h'" "k \<notin> K" "h ! r = Obj g" "h' ! r = Obj g'" "falsyOrAbsent g k"
  shows "falsyOrAbsent g' k"
  using assms unfolding rootFrame_def falsyOrAbsent_def by auto

lemma initCollection_rootFrame:
  assumes "r < length h" "h ! r = Obj g"
  shows "\<exists>h'. initCollection h (VRef r) k = Inr h' \<and> rootFrame r {k} h h' \<and>
              (falsyOrAbsent g k \<longrightarrow> emptyArrayAt h' (VRef r) k)"
proof (cases "js_truthy (case map_of g k of Some x \<Rightarrow> x | None \<Rightarrow> VUndef)")
  case True
  then have "initCollection h (VRef r) k = Inr h"
    using assms by (simp add: initCollection_def getp_Obj)
  moreover have "rootFrame r {k} h h" using assms by (simp add: rootFrame_def)
  moreover have "\<not> falsyOrAbsent g k" using True by (auto simp: falsyOrAbsent_def split: option.splits)
  ultimately show ?thesis by blast
next
  case False
  let ?h' = "(h @ [Arr []])[r := Obj (AList.update k (VRef (length h)) g)]"
  have i: "initCollection h (VRef r) k = Inr ?h'"
    using assms False by (simp add: initCollection_def getp_Obj setp_def nth_append)
  have f: "rootFrame r {k} h ?h'"
    using assms by (auto simp: rootFrame_def nth_append update_conv')
  have "emptyArrayAt ?h' (VRef r) k"
    using assms by (simp add: emptyArrayAt_def getp_Obj update_conv' nth_append)
  with i f show ?thesis by blast
qed

lemma initCollection2_rootFrame:
  assumes "r < length h" "h ! r = Obj g" "k1 \<noteq> k2"
  shows "\<exists>h'. bindE (initCollection h (VRef r) k1) (\<lambda>h1. initCollection h1 (VRef r) k2) = Inr h' \<and>
              rootFrame r {k1, k2} h h' \<and>
              (falsyOrAbsent g k1 \<longrightarrow> emptyArrayAt h' (VRef r) k1) \<and>
              (falsyOrAbsent g k2 \<longrightarrow> emptyArrayAt h' (VRef r) k2)"
proof -
  from initCollection_rootFrame[OF assms(1,2), of k1] obtain h1 where
    1: "initCollection h (VRef r) k1 = Inr h1" "rootFrame r {k1} h h1"
       "falsyOrAbsent g k1 \<longrightarrow> emptyArrayAt h1 (VRef r) k1" by blast
  from rootFrame_root[OF 1(2) assms(2)] obtain g1 where
    g1: "h1 ! r = Obj g1" "\<forall>k. k \<notin> {k1} \<longrightarrow> map_of g1 k = map_of g k" by blast
  have r1: "r < length h1" using assms(1) rootFrame_length[OF 1(2)] by simp
  from initCollection_rootFrame[OF r1 g1(1), of k2] obtain h2 where
    2: "initCollection h1 (VRef r) k2 = Inr h2" "rootFrame r {k2} h1 h2"
       "falsyOrAbsent g1 k2 \<longrightarrow> emptyArrayAt h2 (VRef r) k2" by blast
  have f: "rootFrame r {k1, k2} h h2"
    using rootFrame_trans[OF 1(2) 2(2)] by (simp add: insert_commute)
  have a: "falsyOrAbsent g k1 \<longrightarrow> emptyArrayAt h2 (VRef r) k1"
    using 1(3) emptyArrayAt_frame[OF _ 2(2) _ r1, of k1] assms(3) by auto
  have b: "falsyOrAbsent g k2 \<longrightarrow> emptyArrayAt h2 (VRef r) k2"
    using 2(3) falsyOrAbsent_frame[OF 1(2) _ assms(2) g1(1), of k2] assms(3) by auto
  show ?thesis using 1(1) 2(1) f a b by auto
qed

lemma migrateFrom11To12_rootFrame:
  assumes "r < length h" "h ! r = Obj g"
  shows "\<exists>h'. migrateFrom11To12 h (VRef r) = Inr h' \<and> rootFrame r {''bubbleDesignerStickers''} h h'"
  using assms
  by (auto simp: migrateFrom11To12_def getp_Obj delp_def rootFrame_def delete_conv')

lemma js_le_num [simp]: "js_le toNumber h (VNum a) b = (a \<le> b)"
  by (simp add: js_le_def js_number_def)

lemma setMetadata_Obj:
  assumes "r < length h" "h ! r = Obj g" "map_of g ''_metadata'' = Some (VRef m)"
          "m < length h" "h ! m = Obj gm"
  shows "setMetadata h (VRef r) k x = Inr (h[m := Obj (AList.update k x gm)])"
  using assms by (simp add: setMetadata_def getp_Obj setp_def)

text \<open>
  C1, as the program has it. Let the snapshot be an object without cycles whose
  \<^verbatim>\<open>_metadata\<close> is an object with \<^verbatim>\<open>version\<close> 4, and in which each of \<^verbatim>\<open>characterMemories\<close>,
  \<^verbatim>\<open>fileStorage\<close>, \<^verbatim>\<open>fileReferences\<close> and \<^verbatim>\<open>themeConfig\<close> is missing or falsy. Then
  \<^verbatim>\<open>migrateData\<close> returns a snapshot in which these four are empty arrays and whose
  \<^verbatim>\<open>_metadata\<close> has \<^verbatim>\<open>version\<close> 14 and \<^verbatim>\<open>originalVersion\<close> 4, and every cell of the heap
  it was given, so the input snapshot, is as it was.
\<close>

theorem migrateData_version4:
  assumes r: "r < length h" "h ! r = Obj fs" "distinct (map fst fs)"
      and m: "map_of fs ''_metadata'' = Some (VRef m)" "m < length h" "h ! m = Obj ms"
             "map_of ms ''version'' = Some (VNum 4)"
      and t: "reifyValue h (VRef r) \<noteq> None"
      and f: "falsyOrAbsent fs ''characterMemories''" "falsyOrAbsent fs ''fileStorage''"
             "falsyOrAbsent fs ''fileReferences''" "falsyOrAbsent fs ''themeConfig''"
  shows "\<exists>c h' metadata.
           fst (migrateData toNumber now h d (VRef r)) = Inr (c, h') \<and>
           emptyArrayAt h' c ''characterMemories'' \<and> emptyArrayAt h' c ''fileStorage'' \<and>
           emptyArrayAt h' c ''fileReferences'' \<and> emptyArrayAt h' c ''themeConfig'' \<and>
           getp h' c ''_metadata'' = Inr metadata \<and>
           getp h' metadata ''version'' = Inr (VNum 14) \<and>
           getp h' metadata ''originalVersion'' = Inr (VNum 4) \<and>
           length h \<le> length h' \<and> take (length h) h' = h"
proof -
  \<comment> \<open>the version is read from the input\<close>
  have v0: "getp h (VRef r) ''_metadata'' = Inr (VRef m)" using r m by (simp add: getp_Obj)
  have v1: "getp h (VRef m) ''version'' = Inr (VNum 4)" using m by (simp add: getp_Obj)
  \<comment> \<open>the copy, and the three writes to its metadata\<close>
  from jsonCopy_snapshot[OF r m(1,2,3,4) t] obtain r' h0 g m' gm where
    c: "jsonCopy h (VRef r) = Inr (VRef r', h0)" "length h \<le> m'" "m' < r'" "r' < length h0"
       "h0 ! r' = Obj g" "h0 ! m' = Obj gm" "map_of g ''_metadata'' = Some (VRef m')"
       "map_of gm ''version'' = Some (VNum 4)"
       "\<forall>k. falsyOrAbsent fs k \<longrightarrow> falsyOrAbsent g k"
    by blast
  define gm3 where
    "gm3 = AList.update ''originalVersion'' (VNum 4)
             (AList.update ''migrationTime'' (VStr now) (AList.update ''version'' (VNum 14) gm))"
  define h1 where "h1 = h0[m' := Obj (AList.update ''version'' (VNum 14) gm)]"
  define h2 where
    "h2 = h1[m' := Obj (AList.update ''migrationTime'' (VStr now)
                          (AList.update ''version'' (VNum 14) gm))]"
  define h3 where "h3 = h2[m' := Obj gm3]"
  have m'r': "m' \<noteq> r'" "m' < length h0" using c by auto
  have s1: "setMetadata h0 (VRef r') ''version'' (VNum 14) = Inr h1"
    using setMetadata_Obj[OF c(4,5,7) m'r'(2) c(6)] by (simp add: h1_def)
  have s2: "setMetadata h1 (VRef r') ''migrationTime'' (VStr now) = Inr h2"
    using c m'r' by (subst setMetadata_Obj[where g = g and m = m']) (auto simp: h1_def h2_def)
  have s3: "setMetadata h2 (VRef r') ''originalVersion'' (VNum 4) = Inr h3"
    using c m'r'
    by (subst setMetadata_Obj[where g = g and m = m']) (auto simp: h1_def h2_def h3_def gm3_def)
  have h3: "r' < length h3" "h3 ! r' = Obj g" "m' < length h3" "h3 ! m' = Obj gm3"
    using c m'r' by (auto simp: h1_def h2_def h3_def)
  have gm3: "map_of gm3 ''version'' = Some (VNum 14)" "map_of gm3 ''originalVersion'' = Some (VNum 4)"
    by (simp_all add: gm3_def update_conv')
  \<comment> \<open>the steps\<close>
  from initCollection2_rootFrame[OF h3(1,2), of "''characterMemories''" "''globalMemory''"]
  obtain h4 where
    4: "migrateFrom4To5 h3 (VRef r') = Inr h4"
       "rootFrame r' {''characterMemories'', ''globalMemory''} h3 h4"
       "emptyArrayAt h4 (VRef r') ''characterMemories''"
    using c(9) f(1) by (auto simp: migrateFrom4To5_def)
  from rootFrame_root[OF 4(2) h3(2)] obtain g4 where
    g4: "h4 ! r' = Obj g4"
        "\<forall>k. k \<notin> {''characterMemories'', ''globalMemory''} \<longrightarrow> map_of g4 k = map_of g k"
    by blast
  have l4: "r' < length h4" using h3(1) rootFrame_length[OF 4(2)] by simp
  have f4: "falsyOrAbsent g4 ''fileStorage''" "falsyOrAbsent g4 ''fileReferences''"
           "falsyOrAbsent g4 ''themeConfig''"
    using c(9) f g4(2) by (auto simp: falsyOrAbsent_def)
  from initCollection2_rootFrame[OF l4 g4(1), of "''fileStorage''" "''fileReferences''"]
  obtain h7 where
    7: "migrateFrom7To8 h4 (VRef r') = Inr h7"
       "rootFrame r' {''fileStorage'', ''fileReferences''} h4 h7"
       "emptyArrayAt h7 (VRef r') ''fileStorage''" "emptyArrayAt h7 (VRef r') ''fileReferences''"
    using f4 by (auto simp: migrateFrom7To8_def)
  from rootFrame_root[OF 7(2) g4(1)] obtain g7 where
    g7: "h7 ! r' = Obj g7"
        "\<forall>k. k \<notin> {''fileStorage'', ''fileReferences''} \<longrightarrow> map_of g7 k = map_of g4 k"
    by blast
  have l7: "r' < length h7" using l4 rootFrame_length[OF 7(2)] by simp
  have f7: "falsyOrAbsent g7 ''themeConfig''"
    using f4(3) g7(2) by (auto simp: falsyOrAbsent_def)
  from initCollection_rootFrame[OF l7 g7(1), of "''themeConfig''"]
  obtain h9 where
    9: "migrateFrom9To10 h7 (VRef r') = Inr h9" "rootFrame r' {''themeConfig''} h7 h9"
       "emptyArrayAt h9 (VRef r') ''themeConfig''"
    using f7 by (auto simp: migrateFrom9To10_def)
  from rootFrame_root[OF 9(2) g7(1)] obtain g9 where
    g9: "h9 ! r' = Obj g9" "\<forall>k. k \<notin> {''themeConfig''} \<longrightarrow> map_of g9 k = map_of g7 k"
    by blast
  have l9: "r' < length h9" using l7 rootFrame_length[OF 9(2)] by simp
  from migrateFrom11To12_rootFrame[OF l9 g9(1)] obtain h11 where
    11: "migrateFrom11To12 h9 (VRef r') = Inr h11"
        "rootFrame r' {''bubbleDesignerStickers''} h9 h11"
    by blast
  from rootFrame_root[OF 11(2) g9(1)] obtain g11 where
    g11: "h11 ! r' = Obj g11"
         "\<forall>k. k \<notin> {''bubbleDesignerStickers''} \<longrightarrow> map_of g11 k = map_of g9 k"
    by blast
  have l11: "r' < length h11" using l9 rootFrame_length[OF 11(2)] by simp
  \<comment> \<open>the whole pipeline in memory\<close>
  have mc: "migrateCopy toNumber now h (VRef r) (VNum 4) = Inr (VRef r', h11)"
    by (simp add: migrateCopy_def Let_def c(1) s1 s2 s3 4(1) 7(1) 9(1) 11(1) trivial_steps
                  guarded_def)
  have mm: "migrateInMemory toNumber now h (VRef r) = Inr (VNum 4, VRef r', h11)"
    by (simp add: migrateInMemory_def v0 v1 mc)
  have res: "fst (migrateData toNumber now h d (VRef r)) = Inr (VRef r', h11)"
    by (simp add: migrateData_def mm)
  \<comment> \<open>what holds of the result\<close>
  have e1: "emptyArrayAt h11 (VRef r') ''characterMemories''"
    using emptyArrayAt_frame[OF emptyArrayAt_frame[OF emptyArrayAt_frame[OF 4(3) 7(2) _ l4]
                                                     9(2) _ l7] 11(2) _ l9]
    by simp
  have e2: "emptyArrayAt h11 (VRef r') ''fileStorage''"
    using emptyArrayAt_frame[OF emptyArrayAt_frame[OF 7(3) 9(2) _ l7] 11(2) _ l9] by simp
  have e3: "emptyArrayAt h11 (VRef r') ''fileReferences''"
    using emptyArrayAt_frame[OF emptyArrayAt_frame[OF 7(4) 9(2) _ l7] 11(2) _ l9] by simp
  have e4: "emptyArrayAt h11 (VRef r') ''themeConfig''"
    using emptyArrayAt_frame[OF 9(3) 11(2) _ l9] by simp
  have "map_of g11 ''_metadata'' = Some (VRef m')"
    using g11(2) g9(2) g7(2) g4(2) c(7) by simp
  then have md: "getp h11 (VRef r') ''_metadata'' = Inr (VRef m')"
    using l11 g11(1) by (simp add: getp_Obj)
  have "h4 ! m' = h3 ! m'" using rootFrame_other[OF 4(2) h3(3)] m'r' by simp
  moreover have "h7 ! m' = h4 ! m'"
    using rootFrame_other[OF 7(2), of m'] h3(3) rootFrame_length[OF 4(2)] m'r' by simp
  moreover have "h9 ! m' = h7 ! m'"
    using rootFrame_other[OF 9(2), of m'] h3(3) rootFrame_length[OF 4(2)]
          rootFrame_length[OF 7(2)] m'r' by simp
  moreover have "h11 ! m' = h9 ! m'"
    using rootFrame_other[OF 11(2), of m'] h3(3) rootFrame_length[OF 4(2)]
          rootFrame_length[OF 7(2)] rootFrame_length[OF 9(2)] m'r' by simp
  ultimately have cell: "h11 ! m' = Obj gm3" using h3(4) by simp
  have lm: "m' < length h11" using c(3) l11 by simp
  have mv: "getp h11 (VRef m') ''version'' = Inr (VNum 14)"
           "getp h11 (VRef m') ''originalVersion'' = Inr (VNum 4)"
    using cell lm gm3 by (simp_all add: getp_Obj)
  from migrateCopy_keeps[OF mc] have keep: "length h \<le> length h11" "take (length h) h11 = h"
    by auto
  show ?thesis using res e1 e2 e3 e4 md mv keep by blast
qed

theorem migrateData_version4_witness:
  "\<exists>c h' metadata.
     fst (migrateData noNumber ''T'' heap4 (createStores []) (VRef 3)) = Inr (c, h') \<and>
     emptyArrayAt h' c ''characterMemories'' \<and> emptyArrayAt h' c ''fileStorage'' \<and>
     emptyArrayAt h' c ''fileReferences'' \<and> emptyArrayAt h' c ''themeConfig'' \<and>
     getp h' c ''_metadata'' = Inr metadata \<and>
     getp h' metadata ''version'' = Inr (VNum 14) \<and>
     getp h' metadata ''originalVersion'' = Inr (VNum 4) \<and>
     length heap4 \<le> length h' \<and> take (length heap4) h' = heap4"
proof -
  have 1: "3 < length heap4" by (simp add: heap4_def)
  have 2: "heap4 ! 3 = Obj [(''_metadata'', VRef 0), (''contacts'', VRef 2)]" by (simp add: heap4_def)
  have 3: "distinct (map fst [(''_metadata'', VRef 0), (''contacts'', VRef (2::nat))])" by simp
  have 4: "map_of [(''_metadata'', VRef 0), (''contacts'', VRef 2)] ''_metadata'' = Some (VRef 0)" by simp
  have 5: "0 < length heap4" by (simp add: heap4_def)
  have 6: "heap4 ! 0 = Obj [(''version'', VNum 4)]" by (simp add: heap4_def)
  have 7: "map_of [(''version'', VNum 4)] ''version'' = Some (VNum 4)" by simp
  have 8: "reifyValue heap4 (VRef 3) \<noteq> None" by code_simp
  have 9: "falsyOrAbsent [(''_metadata'', VRef 0), (''contacts'', VRef 2)] ''characterMemories''"
          "falsyOrAbsent [(''_metadata'', VRef 0), (''contacts'', VRef 2)] ''fileStorage''"
          "falsyOrAbsent [(''_metadata'', VRef 0), (''contacts'', VRef 2)] ''fileReferences''"
          "falsyOrAbsent [(''_metadata'', VRef 0), (''contacts'', VRef 2)] ''themeConfig''"
    by (simp_all add: falsyOrAbsent_def)
  show ?thesis
    by (rule migrateData_version4[OF 1 2 3 4 5 6 7 8 9])
qed

text \<open>
  C1 as the specification states it fails: a version 4 snapshot without \<^verbatim>\<open>fileStorage\<close>
  and \<^verbatim>\<open>characterMemories\<close> that has a theme keeps it, so \<^verbatim>\<open>themeConfig\<close> is not an empty
  array in the result.
\<close>

theorem migrateData_version4_counterexample:
  "getp heapTheme (VRef 3) ''_metadata'' = Inr (VRef 0) \<and>
   getp heapTheme (VRef 0) ''version'' = Inr (VNum 4) \<and>
   getp heapTheme (VRef 3) ''fileStorage'' = Inr VUndef \<and>
   getp heapTheme (VRef 3) ''characterMemories'' = Inr VUndef \<and>
   reifyValue (resultHeap migratedTheme) (resultValue migratedTheme)
     = Some (TObj [(''_metadata'', TObj [(''version'', TNum 14), (''migrationTime'', TStr ''T''),
                                         (''originalVersion'', TNum 4)]),
                   (''themeConfig'', TArr [TObj [(''type'', TStr ''dark'')]]),
                   (''characterMemories'', TArr []),
                   (''globalMemory'', TArr []),
                   (''fileStorage'', TArr []),
                   (''fileReferences'', TArr [])]) \<and>
   \<not> emptyArrayAt (resultHeap migratedTheme) (resultValue migratedTheme) ''themeConfig''"
  by code_simp

section \<open>Properties of the import\<close>

text \<open>
  C5 fails on the program. Importing the snapshot with two contacts into a fresh
  database adds both. Importing it again without \<^verbatim>\<open>overwrite\<close> does not report them as
  skipped: the first \<^verbatim>\<open>add\<close> fails with ConstraintError, the transaction is aborted,
  \<^verbatim>\<open>importStore\<close> is rejected and \<^verbatim>\<open>importDatabase\<close> raises.
\<close>

theorem importStore_duplicate_rejects:
  "fst (importDatabase noNumber ''T'' heapContacts (createStores []) (VRef 4) defaultOptions)
     = Inr \<lparr>importedStores = [''contacts''],
            results = [(''contacts'', \<lparr>total = 2, added = 2, skipped = 0, errorCount = 0\<rparr>)],
            migrated = False\<rparr> \<and>
   importStore afterFirstImport heapContacts ''contacts'' (VRef 3) False
     = (Inl NullRejection, afterFirstImport) \<and>
   importDatabase noNumber ''T'' heapContacts afterFirstImport (VRef 4) defaultOptions
     = (Inl TypeError, heapContacts, afterFirstImport)"
  by code_simp





section \<open>Properties of the connection lifecycle\<close>

lemma coalesced_constructed: "coalesced constructed"
  by (simp add: coalesced_def constructed_def)

lemma last_not_rejected_index:
  assumes "list_all (\<lambda>q. q = Rejected) (butlast rs)" "p < length rs" "rs ! p \<noteq> Rejected"
  shows "p = length rs - 1"
proof (rule ccontr)
  assume "p \<noteq> length rs - 1"
  with assms(2) have "p < length (butlast rs)" by simp
  then have "butlast rs ! p \<in> set (butlast rs)" by simp
  moreover have "butlast rs ! p = rs ! p" using \<open>p < length (butlast rs)\<close> by (simp add: nth_butlast)
  ultimately show False using assms(1,3) by (auto simp: list_all_iff)
qed

lemma last_index: "rs \<noteq> [] \<Longrightarrow> rs ! (length rs - 1) = last rs"
  by (simp add: last_conv_nth)

lemma coalescedD:
  assumes "coalesced s"
  shows "list_all (\<lambda>q. q = Rejected) (butlast (requests s))"
    and "requests s \<noteq> [] \<Longrightarrow> last (requests s) = Pending \<Longrightarrow>
           initPromise s = Some (length (requests s) - 1)"
    and "requests s \<noteq> [] \<Longrightarrow> last (requests s) = Resolved x \<Longrightarrow>
           isReady s \<and> connection s = Some x"
    and "isReady s \<Longrightarrow> requests s \<noteq> [] \<and> (\<exists>x. last (requests s) = Resolved x)"
    and "(c, Returned x) \<in> set (outcomes s) \<Longrightarrow> isReady s \<and> connection s = Some x"
    and "(c, Thrown) \<in> set (outcomes s) \<Longrightarrow> Rejected \<in> set (requests s)"
    and "distinct (upgraded s)"
    and "p \<in> set (upgraded s) \<Longrightarrow> p < length (requests s)"
    and "(c, p, True) \<in> set (awaiting s) \<Longrightarrow>
           requests s \<noteq> [] \<and> initPromise s = Some p \<and> p = length (requests s) - 1"
    and "(c, p, True) \<in> set (awaiting s) \<Longrightarrow> (c', p', True) \<in> set (awaiting s) \<Longrightarrow> c = c'"
proof -
  note a = assms[unfolded coalesced_def list_all_iff]
  show "list_all (\<lambda>q. q = Rejected) (butlast (requests s))"
    using a by (simp add: list_all_iff)
  show "requests s \<noteq> [] \<Longrightarrow> last (requests s) = Pending \<Longrightarrow>
           initPromise s = Some (length (requests s) - 1)"
    using a by blast
  show "requests s \<noteq> [] \<Longrightarrow> last (requests s) = Resolved x \<Longrightarrow>
           isReady s \<and> connection s = Some x"
    using a by blast
  show "isReady s \<Longrightarrow> requests s \<noteq> [] \<and> (\<exists>x. last (requests s) = Resolved x)"
    using a by blast
  have o: "\<forall>r\<in>set (outcomes s). case snd r of Returned x \<Rightarrow> isReady s \<and> connection s = Some x
                               | Thrown \<Rightarrow> Rejected \<in> set (requests s)"
    using a by blast
  show "(c, Returned x) \<in> set (outcomes s) \<Longrightarrow> isReady s \<and> connection s = Some x"
    using o by fastforce
  show "(c, Thrown) \<in> set (outcomes s) \<Longrightarrow> Rejected \<in> set (requests s)"
    using o by fastforce
  show "distinct (upgraded s)" using a by blast
  show "p \<in> set (upgraded s) \<Longrightarrow> p < length (requests s)" using a by blast
  have w: "\<forall>a\<in>set (awaiting s). snd (snd a) \<longrightarrow>
                  requests s \<noteq> [] \<and> initPromise s = Some (fst (snd a)) \<and>
                  fst (snd a) = length (requests s) - 1"
    using a by blast
  show "(c, p, True) \<in> set (awaiting s) \<Longrightarrow>
           requests s \<noteq> [] \<and> initPromise s = Some p \<and> p = length (requests s) - 1"
    using w by fastforce
  have u: "\<forall>a\<in>set (awaiting s). \<forall>b\<in>set (awaiting s). snd (snd a) \<and> snd (snd b) \<longrightarrow> fst a = fst b"
    using a by blast
  show "(c, p, True) \<in> set (awaiting s) \<Longrightarrow> (c', p', True) \<in> set (awaiting s) \<Longrightarrow> c = c'"
    using u by fastforce
qed

lemma coalescedI:
  assumes "list_all (\<lambda>q. q = Rejected) (butlast (requests s))"
    and "requests s \<noteq> [] \<Longrightarrow> last (requests s) = Pending \<Longrightarrow>
           initPromise s = Some (length (requests s) - 1)"
    and "\<And>x. requests s \<noteq> [] \<Longrightarrow> last (requests s) = Resolved x \<Longrightarrow>
           isReady s \<and> connection s = Some x"
    and "isReady s \<Longrightarrow> requests s \<noteq> [] \<and> (\<exists>x. last (requests s) = Resolved x)"
    and "\<And>c x. (c, Returned x) \<in> set (outcomes s) \<Longrightarrow> isReady s \<and> connection s = Some x"
    and "\<And>c. (c, Thrown) \<in> set (outcomes s) \<Longrightarrow> Rejected \<in> set (requests s)"
    and "distinct (upgraded s)"
    and "\<And>p. p \<in> set (upgraded s) \<Longrightarrow> p < length (requests s)"
    and "\<And>c p. (c, p, True) \<in> set (awaiting s) \<Longrightarrow>
           requests s \<noteq> [] \<and> initPromise s = Some p \<and> p = length (requests s) - 1"
    and "\<And>c p c' p'. (c, p, True) \<in> set (awaiting s) \<Longrightarrow> (c', p', True) \<in> set (awaiting s) \<Longrightarrow> c = c'"
  shows "coalesced s"
proof -
  have o: "case snd r of Returned x \<Rightarrow> isReady s \<and> connection s = Some x
                        | Thrown \<Rightarrow> Rejected \<in> set (requests s)"
    if "r \<in> set (outcomes s)" for r
  proof -
    obtain c v where r: "r = (c, v)" by (cases r)
    show ?thesis using that r assms(5)[of c] assms(6)[of c] by (cases v) auto
  qed
  have w: "requests s \<noteq> [] \<and> initPromise s = Some (fst (snd a)) \<and>
           fst (snd a) = length (requests s) - 1"
    if "a \<in> set (awaiting s)" "snd (snd a)" for a
  proof -
    obtain c p st where a: "a = (c, p, st)" by (cases a)
    show ?thesis using that a assms(9)[of c p] by simp
  qed
  have u: "fst a = fst b"
    if "a \<in> set (awaiting s)" "b \<in> set (awaiting s)" "snd (snd a) \<and> snd (snd b)" for a b
  proof -
    obtain c p st where a: "a = (c, p, st)" by (cases a)
    obtain c' p' st' where b: "b = (c', p', st')" by (cases b)
    show ?thesis using that a b assms(10)[of c p c' p'] by simp
  qed
  have 1: "\<forall>q\<in>set (butlast (requests s)). q = Rejected" using assms(1) by (simp add: list_all_iff)
  have 2: "requests s \<noteq> [] \<and> last (requests s) = Pending \<longrightarrow>
         initPromise s = Some (length (requests s) - 1)" using assms(2) by blast
  have 3: "\<forall>x. requests s \<noteq> [] \<and> last (requests s) = Resolved x \<longrightarrow>
         isReady s \<and> connection s = Some x" using assms(3) by blast
  have 4: "isReady s \<longrightarrow> requests s \<noteq> [] \<and> (\<exists>x. last (requests s) = Resolved x)"
    using assms(4) by blast
  have 5: "\<forall>r\<in>set (outcomes s). case snd r of Returned x \<Rightarrow> isReady s \<and> connection s = Some x
                               | Thrown \<Rightarrow> Rejected \<in> set (requests s)" using o by blast
  have 7: "\<forall>p\<in>set (upgraded s). p < length (requests s)" using assms(8) by blast
  have 8: "\<forall>a\<in>set (awaiting s). snd (snd a) \<longrightarrow>
                  requests s \<noteq> [] \<and> initPromise s = Some (fst (snd a)) \<and>
                  fst (snd a) = length (requests s) - 1" using w by blast
  have 9: "\<forall>a\<in>set (awaiting s). \<forall>b\<in>set (awaiting s). snd (snd a) \<and> snd (snd b) \<longrightarrow> fst a = fst b"
    using u by blast
  show ?thesis
    unfolding coalesced_def list_all_iff
    by (rule conjI[OF 1 conjI[OF 2 conjI[OF 3 conjI[OF 4 conjI[OF 5 conjI[OF assms(7)
              conjI[OF 7 conjI[OF 8 9]]]]]]]])
qed

lemma init_ready:
  assumes "isReady s" "connection s = Some x"
  shows "init s = s\<lparr>calls := calls s + 1, outcomes := outcomes s @ [(calls s, Returned x)]\<rparr>"
  using assms by (simp add: init_def Let_def)

lemma init_waits:
  assumes "\<not> isReady s \<or> connection s = None" "initPromise s = Some p"
  shows "init s = s\<lparr>calls := calls s + 1, awaiting := awaiting s @ [(calls s, p, False)]\<rparr>"
  using assms by (auto simp: init_def Let_def)

lemma init_opens:
  assumes "\<not> isReady s \<or> connection s = None" "initPromise s = None"
  shows "init s = s\<lparr>calls := calls s + 1, requests := requests s @ [Pending],
                    initPromise := Some (length (requests s)),
                    awaiting := awaiting s @ [(calls s, length (requests s), True)]\<rparr>"
  using assms by (auto simp: init_def Let_def performInit_def)

lemma coalesced_init:
  assumes c: "coalesced s"
  shows "coalesced (init s)"
proof -
  note d = coalescedD[OF c]
  consider (ready) x where "isReady s" "connection s = Some x"
    | (waits) p where "\<not> isReady s \<or> connection s = None" "initPromise s = Some p"
    | (opens) "\<not> isReady s \<or> connection s = None" "initPromise s = None"
    by (cases "connection s"; cases "initPromise s") auto
  then show ?thesis
  proof cases
    case ready
    show ?thesis
      unfolding init_ready[OF ready]
    proof (rule coalescedI, goal_cases)
      case 1 show ?case using d(1) by simp
    next
      case 2 then show ?case using d(2) by simp
    next
      case (3 y) then show ?case using d(3)[of y] by simp
    next
      case 4 then show ?case using d(4) by simp
    next
      case (5 k y) then show ?case using d(5)[of k y] ready by auto
    next
      case (6 k) then show ?case using d(6)[of k] by auto
    next
      case 7 show ?case using d(7) by simp
    next
      case (8 q) then show ?case using d(8)[of q] by simp
    next
      case (9 k q) then show ?case using d(9)[of k q] by simp
    next
      case (10 k q k' q') then show ?case using d(10)[of k q k' q'] by simp
    qed
  next
    case waits
    show ?thesis
      unfolding init_waits[OF waits]
    proof (rule coalescedI, goal_cases)
      case 1 show ?case using d(1) by simp
    next
      case 2 then show ?case using d(2) by simp
    next
      case (3 y) then show ?case using d(3)[of y] by simp
    next
      case 4 then show ?case using d(4) by simp
    next
      case (5 k y) then show ?case using d(5)[of k y] by simp
    next
      case (6 k) then show ?case using d(6)[of k] by simp
    next
      case 7 show ?case using d(7) by simp
    next
      case (8 q) then show ?case using d(8)[of q] by simp
    next
      case (9 k q) then show ?case using d(9)[of k q] by simp
    next
      case (10 k q k' q') then show ?case using d(10)[of k q k' q'] by simp
    qed
  next
    case opens
    have nr: "\<not> isReady s"
    proof
      assume r: "isReady s"
      from d(4)[OF r] obtain x where "requests s \<noteq> []" "last (requests s) = Resolved x" by blast
      from d(3)[OF this] opens(1) r show False by simp
    qed
    have allrej: "list_all (\<lambda>q. q = Rejected) (requests s)"
    proof (cases "requests s = []")
      case True
      then show ?thesis by simp
    next
      case False
      have l: "last (requests s) = Rejected"
      proof (cases "last (requests s)")
        case Pending
        from d(2)[OF False Pending] opens(2) show ?thesis by simp
      next
        case (Resolved x)
        from d(3)[OF False Resolved] nr show ?thesis by simp
      qed simp
      have "list_all (\<lambda>q. q = Rejected) (butlast (requests s) @ [last (requests s)])"
        using d(1) l by simp
      then show ?thesis using False by simp
    qed
    have nostarter: "(c', p', True) \<notin> set (awaiting s)" for c' p'
      using d(9)[of c' p'] opens(2) by auto
    show ?thesis
      unfolding init_opens[OF opens]
    proof (rule coalescedI, goal_cases)
      case 1 show ?case using allrej by simp
    next
      case 2 show ?case by simp
    next
      case (3 y) then show ?case by simp
    next
      case 4 then show ?case using nr by simp
    next
      case (5 k y) then show ?case using d(5)[of k y] by simp
    next
      case (6 k) then show ?case using d(6)[of k] by simp
    next
      case 7 show ?case using d(7) by simp
    next
      case (8 q) then show ?case using d(8)[of q] by (simp add: less_Suc_eq)
    next
      case (9 k q) then show ?case using nostarter[of k q] by simp
    next
      case (10 k q k' q') then show ?case using nostarter[of k q] nostarter[of k' q'] by simp
    qed
  qed
qed

lemma in_delete: "(k, v) \<in> set (AList.delete c al) \<Longrightarrow> (k, v) \<in> set al \<and> k \<noteq> c"
  by (auto simp: AList.delete_eq)

lemma mem_update_other: "y \<in> set xs \<Longrightarrow> y \<noteq> xs ! i \<Longrightarrow> y \<in> set (xs[i := v])"
  by (metis in_set_conv_nth length_list_update nth_list_update_neq)

lemma update_last:
  assumes "xs \<noteq> []"
  shows "butlast (xs[length xs - 1 := v]) = butlast xs" "last (xs[length xs - 1 := v]) = v"
  using assms by (simp_all add: butlast_list_update last_list_update)

lemma init_resume_Some:
  assumes "init_resume s c = Some s'"
  obtains p st r where "(c, p, st) \<in> set (awaiting s)" "p < length (requests s)"
    "settle (requests s ! p) = Some r"
    "s' = s\<lparr>initPromise := (if st then None else initPromise s),
             awaiting := AList.delete c (awaiting s),
             outcomes := outcomes s @ [(c, r)]\<rparr>"
  using assms
  by (auto simp: init_resume_def split: option.splits if_splits dest!: map_of_SomeD)

lemma coalesced_resume:
  assumes c: "coalesced s" and f: "init_resume s k = Some s'"
  shows "coalesced s'"
proof -
  note d = coalescedD[OF c]
  from f obtain p st r where
    w: "(k, p, st) \<in> set (awaiting s)" "p < length (requests s)"
       "settle (requests s ! p) = Some r"
    and s': "s' = s\<lparr>initPromise := (if st then None else initPromise s),
                     awaiting := AList.delete k (awaiting s),
                     outcomes := outcomes s @ [(k, r)]\<rparr>"
    by (rule init_resume_Some)
  have ne: "requests s \<noteq> []" using w(2) by auto
  have np: "requests s ! p \<noteq> Pending" using w(3) by (auto simp: settle_def)
  show ?thesis
    unfolding s'
  proof (rule coalescedI, goal_cases)
    case 1 show ?case using d(1) by simp
  next
    case 2
    show ?case
    proof (cases st)
      case False
      with 2 show ?thesis using d(2) by simp
    next
      case True
      with w(1) d(9)[of k p] have "p = length (requests s) - 1" by simp
      with np last_index[OF ne] 2 show ?thesis by simp
    qed
  next
    case (3 y) then show ?case using d(3)[of y] by simp
  next
    case 4 then show ?case using d(4) by simp
  next
    case (5 c y)
    show ?case
    proof (cases "(c, Returned y) \<in> set (outcomes s)")
      case True
      then show ?thesis using d(5)[of c y] by simp
    next
      case False
      with 5 have "r = Returned y" by simp
      with w(3) have res: "requests s ! p = Resolved y"
        by (auto simp: settle_def split: promise.splits)
      then have "requests s ! p \<noteq> Rejected" by simp
      from last_not_rejected_index[OF d(1) w(2) this] res last_index[OF ne]
      have "last (requests s) = Resolved y" by simp
      from d(3)[OF ne this] show ?thesis by simp
    qed
  next
    case (6 c)
    show ?case
    proof (cases "(c, Thrown) \<in> set (outcomes s)")
      case True
      then show ?thesis using d(6)[of c] by simp
    next
      case False
      with 6 have "r = Thrown" by simp
      with w(3) have "requests s ! p = Rejected"
        by (auto simp: settle_def split: promise.splits)
      then show ?thesis using w(2) nth_mem[OF w(2)] by simp
    qed
  next
    case 7 show ?case using d(7) by simp
  next
    case (8 q) then show ?case using d(8)[of q] by simp
  next
    case (9 c q)
    then have m: "(c, q, True) \<in> set (awaiting s)" "c \<noteq> k" using in_delete[of c "(q, True)" k "awaiting s"] by auto
    show ?case
    proof (cases st)
      case False
      then show ?thesis using d(9)[OF m(1)] by simp
    next
      case True
      with w(1) d(10)[OF m(1), of k p] m(2) show ?thesis by simp
    qed
  next
    case (10 c q c' q')
    then have "(c, q, True) \<in> set (awaiting s)" "(c', q', True) \<in> set (awaiting s)"
      using in_delete[of c "(q, True)" k "awaiting s"] in_delete[of c' "(q', True)" k "awaiting s"]
      by auto
    then show ?case by (rule d(10))
  qed
qed

lemma coalesced_upgrade:
  assumes c: "coalesced s" and f: "onupgradeneeded s p = Some s'"
  shows "coalesced s'"
proof -
  note d = coalescedD[OF c]
  from f have p: "p < length (requests s)" "p \<notin> set (upgraded s)"
    and s': "s' = s\<lparr>upgraded := upgraded s @ [p]\<rparr>"
    by (auto simp: onupgradeneeded_def split: if_splits)
  show ?thesis
    unfolding s'
  proof (rule coalescedI, goal_cases)
    case 1 show ?case using d(1) by simp
  next
    case 2 then show ?case using d(2) by simp
  next
    case (3 y) then show ?case using d(3)[of y] by simp
  next
    case 4 then show ?case using d(4) by simp
  next
    case (5 c y) then show ?case using d(5)[of c y] by simp
  next
    case (6 c) then show ?case using d(6)[of c] by simp
  next
    case 7 show ?case using d(7) p(2) by simp
  next
    case (8 q) then show ?case using d(8)[of q] p(1) by auto
  next
    case (9 c q) then show ?case using d(9)[of c q] by simp
  next
    case (10 c q c' q') then show ?case using d(10)[of c q c' q'] by simp
  qed
qed

lemma coalesced_success:
  assumes c: "coalesced s" and f: "open_onsuccess s p x = Some s'"
  shows "coalesced s'"
proof -
  note d = coalescedD[OF c]
  from f have p: "p < length (requests s)" "requests s ! p = Pending"
    and s': "s' = s\<lparr>connection := Some x, isReady := True,
                     requests := (requests s)[p := Resolved x]\<rparr>"
    by (auto simp: open_onsuccess_def split: if_splits)
  have ne: "requests s \<noteq> []" using p(1) by auto
  have pl: "p = length (requests s) - 1"
    using last_not_rejected_index[OF d(1) p(1)] p(2) by simp
  have lp: "last (requests s) = Pending" using last_index[OF ne] pl p(2) by simp
  have nr: "\<not> isReady s" using d(4) lp by auto
  note ul = update_last[OF ne, of "Resolved x"]
  show ?thesis
    unfolding s' pl
  proof (rule coalescedI, goal_cases)
    case 1 show ?case using d(1) ul by simp
  next
    case 2 then show ?case using ul by simp
  next
    case (3 y) then show ?case using ul by simp
  next
    case 4 show ?case using ul ne by simp
  next
    case (5 c y) then show ?case using d(5)[of c y] nr by simp
  next
    case (6 c)
    then have "Rejected \<in> set (requests s)" using d(6)[of c] by simp
    moreover have "Rejected \<noteq> requests s ! (length (requests s) - 1)" using p(2) pl by simp
    ultimately show ?case using mem_update_other by fastforce
  next
    case 7 show ?case using d(7) by simp
  next
    case (8 q) then show ?case using d(8)[of q] by simp
  next
    case (9 c q) then show ?case using d(9)[of c q] by simp
  next
    case (10 c q c' q') then show ?case using d(10)[of c q c' q'] by simp
  qed
qed

lemma coalesced_failure:
  assumes c: "coalesced s" and f: "open_onerror s p = Some s'"
  shows "coalesced s'"
proof -
  note d = coalescedD[OF c]
  from f have p: "p < length (requests s)" "requests s ! p = Pending"
    and s': "s' = s\<lparr>requests := (requests s)[p := Rejected]\<rparr>"
    by (auto simp: open_onerror_def split: if_splits)
  have ne: "requests s \<noteq> []" using p(1) by auto
  have pl: "p = length (requests s) - 1"
    using last_not_rejected_index[OF d(1) p(1)] p(2) by simp
  have lp: "last (requests s) = Pending" using last_index[OF ne] pl p(2) by simp
  have nr: "\<not> isReady s" using d(4) lp by auto
  note ul = update_last[OF ne, of Rejected]
  show ?thesis
    unfolding s' pl
  proof (rule coalescedI, goal_cases)
    case 1 show ?case using d(1) ul by simp
  next
    case 2 then show ?case using ul by simp
  next
    case (3 y) then show ?case using ul by simp
  next
    case 4 then show ?case using nr by simp
  next
    case (5 c y) then show ?case using d(5)[of c y] by simp
  next
    case (6 c)
    have "Rejected \<in> set ((requests s)[length (requests s) - 1 := Rejected])"
      using ne by (simp add: set_update_memI)
    then show ?case by simp
  next
    case 7 show ?case using d(7) by simp
  next
    case (8 q) then show ?case using d(8)[of q] by simp
  next
    case (9 c q) then show ?case using d(9)[of c q] by simp
  next
    case (10 c q c' q') then show ?case using d(10)[of c q c' q'] by simp
  qed
qed

lemma coalesced_fire: "coalesced s \<Longrightarrow> fire s e = Some s' \<Longrightarrow> coalesced s'"
  by (cases e)
     (auto intro: coalesced_init coalesced_resume coalesced_upgrade coalesced_success
                  coalesced_failure)

lemma coalesced_run: "coalesced s \<Longrightarrow> run s es = Some s' \<Longrightarrow> coalesced s'"
proof (induction es arbitrary: s)
  case Nil
  then show ?case by simp
next
  case (Cons e es)
  then show ?case by (auto split: option.splits dest: coalesced_fire)
qed

lemma all_but_last_rejected:
  assumes "list_all (\<lambda>q. q = Rejected) (butlast rs)"
  shows "length (filter (\<lambda>q. q = Pending) rs) \<le> 1"
    and "length rs \<le> Suc (length (filter (\<lambda>q. q = Rejected) rs))"
proof -
  have b: "filter (\<lambda>q. q = Pending) (butlast rs) = []"
          "filter (\<lambda>q. q = Rejected) (butlast rs) = butlast rs"
    using assms by (auto simp: list_all_iff filter_empty_conv filter_id_conv)
  show "length (filter (\<lambda>q. q = Pending) rs) \<le> 1"
  proof (cases "rs = []")
    case False
    then have "rs = butlast rs @ [last rs]" by simp
    then have "filter (\<lambda>q. q = Pending) rs
                 = filter (\<lambda>q. q = Pending) (butlast rs) @ filter (\<lambda>q. q = Pending) [last rs]"
      by (metis filter_append)
    then show ?thesis using b by simp
  qed simp
  show "length rs \<le> Suc (length (filter (\<lambda>q. q = Rejected) rs))"
  proof (cases "rs = []")
    case False
    then have "rs = butlast rs @ [last rs]" by simp
    then have "filter (\<lambda>q. q = Rejected) rs
                 = filter (\<lambda>q. q = Rejected) (butlast rs) @ filter (\<lambda>q. q = Rejected) [last rs]"
      by (metis filter_append)
    then have "length (butlast rs) \<le> length (filter (\<lambda>q. q = Rejected) rs)" using b by simp
    then show ?thesis by simp
  qed simp
qed

lemma distinct_bounded_length:
  assumes "distinct xs" "\<And>x. x \<in> set xs \<Longrightarrow> x < (n::nat)"
  shows "length xs \<le> n"
proof -
  have "set xs \<subseteq> {..<n}" using assms(2) by auto
  then have "card (set xs) \<le> card {..<n}" by (intro card_mono) auto
  then show ?thesis using assms(1) by (simp add: distinct_card)
qed

text \<open>
  C4. In every state that the manager reaches from its construction, by any interleaving
  of calls of \<^verbatim>\<open>init\<close>, resumptions of awaiting calls and events of the engine: at most
  one open request is pending, a further request is made only after a failed one, and
  the upgrade callback has fired at most once per request, so at most once as long as no
  request has failed; every call that returned has returned the one connection the
  manager holds, and a call has raised only after a request failed. In such a state a
  call of \<^verbatim>\<open>init\<close> with a ready connection returns it and opens nothing; a call while a
  request is pending awaits that request and opens nothing; and a call awaiting a
  failed request raises when it resumes, which for the call that started the request
  clears \<^verbatim>\<open>initPromise\<close>, so that the next call opens again.
\<close>

theorem init_coalesces:
  assumes "run constructed events = Some s"
  shows "length (filter (\<lambda>q. q = Pending) (requests s)) \<le> 1 \<and>
         length (requests s) \<le> Suc (length (filter (\<lambda>q. q = Rejected) (requests s))) \<and>
         length (upgraded s) \<le> length (requests s) \<and>
         (Rejected \<notin> set (requests s) \<longrightarrow>
            length (requests s) \<le> 1 \<and> length (upgraded s) \<le> 1) \<and>
         (\<forall>c x. (c, Returned x) \<in> set (outcomes s) \<longrightarrow> connection s = Some x) \<and>
         (\<forall>c. (c, Thrown) \<in> set (outcomes s) \<longrightarrow> Rejected \<in> set (requests s)) \<and>
         (\<forall>x. isReady s \<and> connection s = Some x \<longrightarrow>
              requests (init s) = requests s \<and>
              outcomes (init s) = outcomes s @ [(calls s, Returned x)]) \<and>
         (\<forall>p. p < length (requests s) \<and> requests s ! p = Pending \<longrightarrow>
              requests (init s) = requests s \<and>
              awaiting (init s) = awaiting s @ [(calls s, p, False)]) \<and>
         (\<forall>c p st. map_of (awaiting s) c = Some (p, st) \<and> p < length (requests s) \<and>
                   requests s ! p = Rejected \<longrightarrow>
              (\<exists>s'. init_resume s c = Some s' \<and> (c, Thrown) \<in> set (outcomes s') \<and>
                    (st \<longrightarrow> initPromise s' = None \<and>
                           requests (init s') = requests s' @ [Pending])))"
proof -
  have c: "coalesced s" using coalesced_run[OF coalesced_constructed assms] .
  note d = coalescedD[OF c]
  have 1: "length (filter (\<lambda>q. q = Pending) (requests s)) \<le> 1"
    and 2: "length (requests s) \<le> Suc (length (filter (\<lambda>q. q = Rejected) (requests s)))"
    using all_but_last_rejected[OF d(1)] by auto
  have 3: "length (upgraded s) \<le> length (requests s)"
    using distinct_bounded_length[OF d(7)] d(8) by blast
  have 9: "Rejected \<notin> set (requests s) \<longrightarrow>
              length (requests s) \<le> 1 \<and> length (upgraded s) \<le> 1"
  proof
    assume "Rejected \<notin> set (requests s)"
    then have "filter (\<lambda>q. q = Rejected) (requests s) = []" by (auto simp: filter_empty_conv)
    with 2 have "length (requests s) \<le> 1" by simp
    with 3 show "length (requests s) \<le> 1 \<and> length (upgraded s) \<le> 1" by simp
  qed
  have 4: "\<forall>c x. (c, Returned x) \<in> set (outcomes s) \<longrightarrow> connection s = Some x"
    using d(5) by blast
  have 5: "\<forall>c. (c, Thrown) \<in> set (outcomes s) \<longrightarrow> Rejected \<in> set (requests s)"
    using d(6) by blast
  have 6: "\<forall>x. isReady s \<and> connection s = Some x \<longrightarrow>
              requests (init s) = requests s \<and>
              outcomes (init s) = outcomes s @ [(calls s, Returned x)]"
    by (auto simp: init_ready)
  have 7: "requests (init s) = requests s \<and> awaiting (init s) = awaiting s @ [(calls s, p, False)]"
    if p: "p < length (requests s)" "requests s ! p = Pending" for p
  proof -
    have ne: "requests s \<noteq> []" using p(1) by auto
    have pl: "p = length (requests s) - 1"
      using last_not_rejected_index[OF d(1) p(1)] p(2) by simp
    then have lp: "last (requests s) = Pending" using last_index[OF ne] p(2) by simp
    have nr: "\<not> isReady s" using d(4) lp by auto
    have ip: "initPromise s = Some p" using d(2)[OF ne lp] pl by simp
    show ?thesis using init_waits[of s p] nr ip by simp
  qed
  have 8: "\<exists>s'. init_resume s c = Some s' \<and> (c, Thrown) \<in> set (outcomes s') \<and>
                    (st \<longrightarrow> initPromise s' = None \<and>
                           requests (init s') = requests s' @ [Pending])"
    if w: "map_of (awaiting s) c = Some (p, st)" "p < length (requests s)"
          "requests s ! p = Rejected" for c p st
  proof -
    let ?s' = "s\<lparr>initPromise := (if st then None else initPromise s),
                  awaiting := AList.delete c (awaiting s),
                  outcomes := outcomes s @ [(c, Thrown)]\<rparr>"
    have r: "init_resume s c = Some ?s'"
      using w by (simp add: init_resume_def settle_def)
    have "requests (init ?s') = requests ?s' @ [Pending]" if st
    proof -
      from w(1) that have "(c, p, True) \<in> set (awaiting s)" by (auto dest: map_of_SomeD)
      from d(9)[OF this] have ne: "requests s \<noteq> []" and pl: "p = length (requests s) - 1" by auto
      then have "last (requests s) = Rejected" using last_index[OF ne] w(3) by simp
      then have "\<not> isReady s" using d(4) by auto
      then show ?thesis using init_opens[of ?s'] that by simp
    qed
    then show ?thesis using r by auto
  qed
  show ?thesis using 1 2 3 9 4 5 6 7 8 by blast
qed

theorem init_coalesces_witness:
  "run constructed threeCallers
     = Some \<lparr>connection = Some 7, isReady = True, initPromise = None, requests = [Resolved 7],
             upgraded = [0], awaiting = [],
             outcomes = [(3, Returned 7), (1, Returned 7), (0, Returned 7), (2, Returned 7)],
             calls = 4\<rparr> \<and>
   run constructed failThenRetry
     = Some \<lparr>connection = Some 9, isReady = True, initPromise = None,
             requests = [Rejected, Resolved 9], upgraded = [], awaiting = [],
             outcomes = [(1, Thrown), (0, Thrown), (2, Thrown), (3, Returned 9)],
             calls = 4\<rparr> \<and>
   length (filter (\<lambda>q. q = Pending) [Resolved 7]) \<le> (1::nat) \<and>
   length [Rejected, Resolved 9] \<le> Suc (length (filter (\<lambda>q. q = Rejected) [Rejected, Resolved 9]))"
proof -
  have 1: "run constructed threeCallers
     = Some \<lparr>connection = Some 7, isReady = True, initPromise = None, requests = [Resolved 7],
             upgraded = [0], awaiting = [],
             outcomes = [(3, Returned 7), (1, Returned 7), (0, Returned 7), (2, Returned 7)],
             calls = 4\<rparr>"
    by code_simp
  have 2: "run constructed failThenRetry
     = Some \<lparr>connection = Some 9, isReady = True, initPromise = None,
             requests = [Rejected, Resolved 9], upgraded = [], awaiting = [],
             outcomes = [(1, Thrown), (0, Thrown), (2, Thrown), (3, Returned 9)],
             calls = 4\<rparr>"
    by code_simp
  from init_coalesces[OF 1] init_coalesces[OF 2] 1 2 show ?thesis by simp
qed

end
